theory Spec2Isabelle
  imports Complex_Main
begin

unbundle bit_operations_syntax

section \<open>Python values and exceptions\<close>

text \<open>
  \<^verbatim>\<open>detect_faces\<close> returns either an integer rotation or the object \<^verbatim>\<open>False\<close>, so the
  values that flow out of the search are integers and booleans.  The exceptions are the
  ones a run of \<^verbatim>\<open>whatsup.py\<close> can raise before it prints.
\<close>

datatype pyval = PyInt int | PyBool bool

datatype py_exception = IndexError | ValueError | Cv2Error

text \<open>\<^verbatim>\<open>results is not False\<close>: identity with the singleton \<^verbatim>\<open>False\<close>.  An integer object
  is never that singleton, whatever its value.\<close>

definition is_not_False :: "pyval \<Rightarrow> bool" where
  "is_not_False v = (v \<noteq> PyBool False)"

text \<open>\<^verbatim>\<open>results == False\<close> would be Python's value comparison, under which \<^verbatim>\<open>0 == False\<close>.\<close>

fun py_eq :: "pyval \<Rightarrow> pyval \<Rightarrow> bool" where
  "py_eq (PyInt a) (PyInt b) = (a = b)"
| "py_eq (PyBool a) (PyBool b) = (a = b)"
| "py_eq (PyInt a) (PyBool b) = (a = (if b then 1 else 0))"
| "py_eq (PyBool a) (PyInt b) = (b = (if a then 1 else 0))"

text \<open>\<^verbatim>\<open>int(x)\<close> on the values above.\<close>

fun py_int :: "pyval \<Rightarrow> int" where
  "py_int (PyInt n) = n"
| "py_int (PyBool b) = (if b then 1 else 0)"

text \<open>\<^verbatim>\<open>round(x)\<close> of Python 3: to the nearest integer, a tie to the even one.  Floats are
  read as the reals they approximate; the quotients of image dimensions by 2 and 3
  that the program rounds are far from any float rounding boundary.\<close>

definition py_round :: "real \<Rightarrow> int" where
  "py_round x =
     (let f = \<lfloor>x\<rfloor>; d = x - of_int f
      in if d < 1 / 2 then f else if 1 / 2 < d then f + 1 else if even f then f else f + 1)"

text \<open>\<^verbatim>\<open>str(n)\<close> for an integer, as \<^verbatim>\<open>print\<close> writes it.\<close>

fun str_nat :: "nat \<Rightarrow> string" where
  "str_nat n =
     (if n < 10 then [''0123456789'' ! n]
      else str_nat (n div 10) @ [''0123456789'' ! (n mod 10)])"

declare str_nat.simps [simp del]

definition str_int :: "int \<Rightarrow> string" where
  "str_int i = (if i < 0 then CHR ''-'' # str_nat (nat (- i)) else str_nat (nat i))"

section \<open>Images\<close>

text \<open>
  A numpy image is a grid of pixels, a list of rows; a pixel is the list of its channel
  values (one for a grayscale image, three for a BGR one).
\<close>

type_synonym pixel = "nat list"
type_synonym image = "pixel list list"

text \<open>\<^verbatim>\<open>image.shape[:2]\<close>: height and width.\<close>

definition shape2 :: "image \<Rightarrow> nat \<times> nat" where
  "shape2 img = (length img, (case img of [] \<Rightarrow> 0 | r # _ \<Rightarrow> length r))"

text \<open>The number of channels of a pixel grid, and \<^verbatim>\<open>image.size\<close>, the number of scalars.\<close>

definition channels :: "image \<Rightarrow> nat" where
  "channels img = (case img of (p # _) # _ \<Rightarrow> length p | _ \<Rightarrow> 0)"

definition size_of :: "image \<Rightarrow> nat" where
  "size_of img = (case shape2 img of (h, w) \<Rightarrow> h * w * channels img)"

text \<open>What numpy guarantees of an array read from a file: at least one row and one column,
  every row of the same width, every pixel of the same depth.\<close>

definition is_array :: "image \<Rightarrow> bool" where
  "is_array img =
     (case shape2 img of (h, w) \<Rightarrow>
        0 < h \<and> 0 < w \<and> list_all (\<lambda>r. length r = w \<and> list_all (\<lambda>p. length p = channels img) r) img)"

text \<open>\<^verbatim>\<open>image[r0:r1, c0:c1]\<close> with bounds that are not negative.\<close>

definition slice :: "image \<Rightarrow> nat \<Rightarrow> nat \<Rightarrow> nat \<Rightarrow> nat \<Rightarrow> image" where
  "slice img r0 r1 c0 c1 = map (\<lambda>row. take (c1 - c0) (drop c0 row)) (take (r1 - r0) (drop r0 img))"

text \<open>\<^verbatim>\<open>cv2.rotate(image, cv2.ROTATE_90_CLOCKWISE)\<close>: a permutation of the pixels; row \<open>i\<close> of
  the result is column \<open>i\<close> of the argument read from the bottom up.\<close>

definition rotate_90_clockwise :: "image \<Rightarrow> image" where
  "rotate_90_clockwise img =
     (case shape2 img of (h, w) \<Rightarrow>
        map (\<lambda>i. map (\<lambda>j. img ! (h - 1 - j) ! i) [0..<h]) [0..<w])"

section \<open>The external collaborators\<close>

text \<open>
  Everything the script calls in OpenCV and in the operating system is a parameter of the
  model: the functions are opaque, only their arguments and results are recorded.  One
  invocation of \<^verbatim>\<open>cc.detectMultiScale\<close> is described by the record \<open>det_call\<close>: the cascade
  file the classifier \<^verbatim>\<open>cc\<close> was built from and the six arguments of the call.
\<close>

type_synonym box = "nat \<times> nat \<times> nat \<times> nat"

record det_call =
  classifier :: string
  frame :: image
  scaleFactor :: real
  minNeighbors :: nat
  flags :: nat
  minSize :: "nat \<times> nat"
  maxSize :: "nat \<times> nat"

record extern =
  haarcascades :: string
  abspath :: "string \<Rightarrow> string"
  isfile :: "string \<Rightarrow> bool"
  imread :: "string \<Rightarrow> image option"
  convertScaleAbs :: "image \<Rightarrow> real \<Rightarrow> real \<Rightarrow> image"
  cvtColor_BGR2GRAY :: "image \<Rightarrow> image"
  equalizeHist :: "image \<Rightarrow> image"
  resize_INTER_CUBIC :: "image \<Rightarrow> nat \<times> nat \<Rightarrow> image"
  GaussianBlur :: "image \<Rightarrow> nat \<times> nat \<Rightarrow> nat \<Rightarrow> image"
  mean0 :: "image \<Rightarrow> real"
  detectMultiScale :: "det_call \<Rightarrow> box list"

text \<open>
  \<open>haarcascades\<close> is \<^verbatim>\<open>cv2.data.haarcascades\<close>; \<open>imread\<close> returns \<^verbatim>\<open>None\<close> for a file that
  is not an image; \<open>mean0\<close> is \<^verbatim>\<open>cv2.mean(...)[0]\<close>.  The numeric constants of OpenCV that
  the script combines or passes where a number is read:
\<close>

definition CASCADE_DO_CANNY_PRUNING :: nat where "CASCADE_DO_CANNY_PRUNING = 1"
definition CASCADE_FIND_BIGGEST_OBJECT :: nat where "CASCADE_FIND_BIGGEST_OBJECT = 4"
definition BORDER_DEFAULT :: nat where "BORDER_DEFAULT = 4"

text \<open>\<^verbatim>\<open>cv2.resize(src, dsize, interpolation = cv2.INTER_CUBIC)\<close>, called without scale
  factors as the script does: OpenCV raises \<^verbatim>\<open>cv2.error\<close> when the source has no rows or no
  columns and when the wanted size has a zero width or height; otherwise the pixels of the
  result are left to the parameter.  \<open>dsize\<close> is (width, height).\<close>

definition cv2_resize :: "extern \<Rightarrow> image \<Rightarrow> nat \<times> nat \<Rightarrow> py_exception + image" where
  "cv2_resize env src dsize =
     (case (shape2 src, dsize) of ((h, w), (dsize_w, dsize_h)) \<Rightarrow>
        if h = 0 \<or> w = 0 \<or> dsize_w = 0 \<or> dsize_h = 0 then Inl Cv2Error
        else Inr (resize_INTER_CUBIC env src dsize))"

text \<open>What the external calls of a run were, in order: the trace of a run.\<close>

datatype event = Imread string | Detect det_call

text \<open>\<^verbatim>\<open>os.path.join(a, b)\<close> on POSIX for a relative \<open>b\<close>.\<close>

definition path_join :: "string \<Rightarrow> string \<Rightarrow> string" where
  "path_join a b = (if a = [] \<or> last a = CHR ''/'' then a @ b else a @ CHR ''/'' # b)"

section \<open>The global configuration\<close>

text \<open>\<^verbatim>\<open>debug = False\<close> is never assigned again, so the two debugging blocks (the face boxes
  in \<^verbatim>\<open>detect_faces\<close>, the rotated copy at the end of the script, and \<^verbatim>\<open>rotate_image\<close>, which
  only that copy uses) never run; the file name and extension that \<^verbatim>\<open>try_detect\<close> hands to
  the other two functions are read there only.\<close>

definition CASCADES_TO_USE :: "string list" where
  "CASCADES_TO_USE =
     [''haarcascade_profileface.xml'', ''haarcascade_fullbody.xml'',
      ''haarcascade_frontalface_alt.xml'', ''haarcascade_frontalface_default.xml'']"

section \<open>detect\_faces\<close>

definition rotation_maximum :: nat where "rotation_maximum = 4"

text \<open>The arguments of the detector call in the loop body: only the image changes from
  one round to the next.\<close>

definition faces_call :: "string \<Rightarrow> nat \<Rightarrow> nat \<Rightarrow> nat \<Rightarrow> image \<Rightarrow> det_call" where
  "faces_call cc flgs min_length max_length img =
     \<lparr>classifier = cc, frame = img, scaleFactor = 13 / 10, minNeighbors = 6, flags = flgs,
      minSize = (min_length, min_length), maxSize = (max_length, max_length)\<rparr>"

text \<open>The \<^verbatim>\<open>while counter < rotation_maximum\<close> loop.  The result is what the function
  returns from inside or after the loop, with the detector calls made, oldest first.\<close>

function detect_faces_loop ::
  "extern \<Rightarrow> string \<Rightarrow> nat \<Rightarrow> nat \<Rightarrow> nat \<Rightarrow> image \<Rightarrow> nat \<Rightarrow> pyval \<times> det_call list" where
  "detect_faces_loop env cc flgs min_length max_length img counter =
     (if counter < rotation_maximum then
        (let faces_detected = detectMultiScale env (faces_call cc flgs min_length max_length img)
         in if length faces_detected > 0
            then (PyInt (int counter * 90), [faces_call cc flgs min_length max_length img])
            else (case detect_faces_loop env cc flgs min_length max_length
                         (rotate_90_clockwise img) (counter + 1) of
                    (r, calls) \<Rightarrow> (r, faces_call cc flgs min_length max_length img # calls)))
      else (PyBool False, []))"
  by pat_completeness auto
termination
  by (relation "measure (\<lambda>(env, cc, flgs, mn, mx, img, counter). rotation_maximum - counter)") auto

declare detect_faces_loop.simps [simp del]

text \<open>\<^verbatim>\<open>side = math.sqrt(image.size)\<close>, \<^verbatim>\<open>int(side / 20)\<close> and \<^verbatim>\<open>int(side / 2)\<close>: the floats
  are read as reals, \<^verbatim>\<open>int\<close> truncates a value that is not negative.\<close>

definition side_length :: "image \<Rightarrow> nat \<Rightarrow> nat" where
  "side_length img d = nat \<lfloor>sqrt (real (size_of img)) / real d\<rfloor>"

text \<open>\<^verbatim>\<open>flags\<close> after the \<^verbatim>\<open>if biggest\<close> statement.\<close>

definition faces_flags :: "bool \<Rightarrow> nat" where
  "faces_flags biggest =
     (let flgs = CASCADE_DO_CANNY_PRUNING
      in if biggest then flgs OR CASCADE_FIND_BIGGEST_OBJECT else flgs)"

definition detect_faces :: "extern \<Rightarrow> image \<Rightarrow> string \<Rightarrow> bool \<Rightarrow> pyval \<times> det_call list" where
  "detect_faces env img cc biggest =
     (let counter = 0;
          min_length = side_length img 20;
          max_length = side_length img 2;
          flgs = faces_flags biggest
      in detect_faces_loop env cc flgs min_length max_length img counter)"

section \<open>detect\_brightest\_side\<close>

datatype position = Top | Left | Bottom | Right

text \<open>\<^verbatim>\<open>rotation_map\<close>, a dictionary with these four keys.\<close>

fun rotation_map :: "position \<Rightarrow> int" where
  "rotation_map Top = 0"
| "rotation_map Left = 90"
| "rotation_map Bottom = 180"
| "rotation_map Right = 270"

text \<open>\<^verbatim>\<open>max(samples, key = samples.get)\<close>: the dictionary is walked in insertion order, the
  first key is the candidate, and a later key replaces it only when its value is strictly
  greater.  On an empty dictionary \<^verbatim>\<open>max\<close> raises \<^verbatim>\<open>ValueError\<close>.\<close>

fun max_loop :: "'k \<Rightarrow> real \<Rightarrow> ('k \<times> real) list \<Rightarrow> 'k" where
  "max_loop maxitem maxval [] = maxitem"
| "max_loop maxitem maxval ((item, v) # rest) =
     (if v > maxval then max_loop item v rest else max_loop maxitem maxval rest)"

fun py_max_key :: "('k \<times> real) list \<Rightarrow> py_exception + 'k" where
  "py_max_key [] = Inl ValueError"
| "py_max_key ((item, v) # rest) = Inr (max_loop item v rest)"

text \<open>The four chunks, in the order the script stores them, and the sample of one chunk.\<close>

definition chunks_of :: "image \<Rightarrow> (position \<times> image) list" where
  "chunks_of img =
     (let ratio = 3; boundary = ratio - 1 in
      case shape2 img of (image_h, image_w) \<Rightarrow>
        [(Top, slice img 0 (nat (py_round (of_nat image_h / of_nat ratio))) 0 image_w),
         (Left, slice img 0 image_h 0 (nat (py_round (of_nat image_w / of_nat ratio)))),
         (Bottom, slice img (nat (py_round (of_nat boundary * (of_nat image_h / of_nat ratio)))) image_h
                    0 image_w),
         (Right, slice img 0 image_h
                   (nat (py_round (of_nat boundary * (of_nat image_w / of_nat ratio)))) image_w)])"

definition sample :: "extern \<Rightarrow> image \<Rightarrow> py_exception + real" where
  "sample env chunk =
     (case cv2_resize env chunk (5, 5) of
        Inl e \<Rightarrow> Inl e
      | Inr small \<Rightarrow> Inr (mean0 env (GaussianBlur env small (5, 5) BORDER_DEFAULT)))"

text \<open>The \<^verbatim>\<open>for position in chunks\<close> loop: it fills \<^verbatim>\<open>samples\<close> in the order of \<^verbatim>\<open>chunks\<close> and
  ends at the first chunk that \<^verbatim>\<open>cv2.resize\<close> refuses.\<close>

fun samples_loop :: "extern \<Rightarrow> (position \<times> image) list \<Rightarrow> py_exception + (position \<times> real) list" where
  "samples_loop env [] = Inr []"
| "samples_loop env ((position, chunk) # rest) =
     (case sample env chunk of
        Inl e \<Rightarrow> Inl e
      | Inr v \<Rightarrow>
          (case samples_loop env rest of
             Inl e \<Rightarrow> Inl e
           | Inr samples \<Rightarrow> Inr ((position, v) # samples)))"

definition detect_brightest_side :: "extern \<Rightarrow> image \<Rightarrow> py_exception + int" where
  "detect_brightest_side env img =
     (let chunks = chunks_of img
      in case samples_loop env chunks of
           Inl e \<Rightarrow> Inl e
         | Inr samples \<Rightarrow>
             (case py_max_key samples of
                Inl e \<Rightarrow> Inl e
              | Inr max_side \<Rightarrow> Inr (rotation_map max_side)))"

section \<open>try\_detect\<close>

definition count_minimum :: nat where "count_minimum = 1"

text \<open>The \<^verbatim>\<open>while counter >= count_minimum\<close> loop of one cascade.  \<open>Inr (Some r)\<close> is a
  \<^verbatim>\<open>return r\<close> from inside the loop, \<open>Inr None\<close> is the loop running out, \<open>Inl e\<close> is the
  exception that \<^verbatim>\<open>cv2.resize\<close> raised; the detector calls made so far come with each.\<close>

function scale_loop ::
  "extern \<Rightarrow> string \<Rightarrow> image \<Rightarrow> bool \<Rightarrow> nat \<Rightarrow> (py_exception + pyval option) \<times> det_call list" where
  "scale_loop env cc img biggest counter =
     (if counter \<ge> count_minimum then
        (case shape2 img of (image_h, image_w) \<Rightarrow>
           (let resize_h = nat (py_round (of_nat image_h / of_nat counter));
                resize_w = nat (py_round (of_nat image_w / of_nat counter))
            in case cv2_resize env img (resize_w, resize_h) of
                 Inl e \<Rightarrow> (Inl e, [])
               | Inr image_resized \<Rightarrow>
                   (case detect_faces env image_resized cc biggest of
                      (results, calls) \<Rightarrow>
                        if is_not_False results then (Inr (Some results), calls)
                        else (case scale_loop env cc img biggest (counter - 1) of
                                (r, calls') \<Rightarrow> (r, calls @ calls')))))
      else (Inr None, []))"
  by pat_completeness auto
termination
  by (relation "measure (\<lambda>(env, cc, img, biggest, counter). counter)")
     (auto simp: count_minimum_def)

declare scale_loop.simps [simp del]

text \<open>The \<^verbatim>\<open>for THIS_CASCADE in CASCADES_TO_USE\<close> loop.\<close>

fun cascade_loop ::
  "extern \<Rightarrow> image \<Rightarrow> bool \<Rightarrow> string list \<Rightarrow> (py_exception + pyval option) \<times> det_call list" where
  "cascade_loop env img biggest [] = (Inr None, [])"
| "cascade_loop env img biggest (THIS_CASCADE # rest) =
     (let counter = 2;
          cc = path_join (haarcascades env) THIS_CASCADE
      in case scale_loop env cc img biggest counter of
           (Inl e, calls) \<Rightarrow> (Inl e, calls)
         | (Inr (Some results), calls) \<Rightarrow> (Inr (Some results), calls)
         | (Inr None, calls) \<Rightarrow>
             (case cascade_loop env img biggest rest of (r, calls') \<Rightarrow> (r, calls @ calls')))"

text \<open>The three preprocessing statements: each assigns to \<^verbatim>\<open>image\<close> again.\<close>

definition preprocess :: "extern \<Rightarrow> image \<Rightarrow> image" where
  "preprocess env img =
     (let contrast = 5 / 4;
          brightness = 0;
          img = convertScaleAbs env img contrast brightness;
          img = cvtColor_BGR2GRAY env img;
          img = equalizeHist env img
      in img)"

text \<open>\<^verbatim>\<open>try_detect\<close>: \<^verbatim>\<open>sys.argv[-1]\<close> raises on an empty list; \<^verbatim>\<open>cv2.convertScaleAbs\<close> raises
  on the \<^verbatim>\<open>None\<close> that \<^verbatim>\<open>cv2.imread\<close> returns for a file it cannot decode; an exception
  of \<^verbatim>\<open>cv2.resize\<close> in the loops or in \<^verbatim>\<open>detect_brightest_side\<close> is not caught.  The result
  comes with the trace of the run.\<close>

definition try_detect :: "extern \<Rightarrow> string list \<Rightarrow> bool \<Rightarrow> (py_exception + pyval) \<times> event list" where
  "try_detect env argv biggest =
     (if argv = [] then (Inl IndexError, [])
      else
        (let filename_full = last argv;
             image_path = abspath env filename_full
         in case imread env image_path of
              None \<Rightarrow> (Inl Cv2Error, [Imread image_path])
            | Some loaded \<Rightarrow>
                (let img = preprocess env loaded
                 in case cascade_loop env img biggest CASCADES_TO_USE of
                      (Inl e, calls) \<Rightarrow> (Inl e, Imread image_path # map Detect calls)
                    | (Inr (Some results), calls) \<Rightarrow>
                        (Inr results, Imread image_path # map Detect calls)
                    | (Inr None, calls) \<Rightarrow>
                        (case detect_brightest_side env img of
                           Inl e \<Rightarrow> (Inl e, Imread image_path # map Detect calls)
                         | Inr rotation \<Rightarrow>
                             (Inr (PyInt rotation), Imread image_path # map Detect calls)))))"

section \<open>The script\<close>

text \<open>What a run leaves behind: the lines on standard output, the exit status of the
  process and the trace of the external calls.  \<^verbatim>\<open>sys.exit(-1)\<close> ends the process with the
  status \<open>-1 mod 256\<close>; an exception nobody catches ends it with status 1.\<close>

record process =
  stdout :: "string list"
  exit_status :: int
  trace :: "event list"

definition sys_exit :: "string list \<Rightarrow> int \<Rightarrow> process" where
  "sys_exit out code = \<lparr>stdout = out, exit_status = code mod 256, trace = []\<rparr>"

definition main :: "extern \<Rightarrow> string list \<Rightarrow> process" where
  "main env argv =
     (if length argv \<noteq> 2 then sys_exit [''USAGE: whatsup filename''] (- 1)
      else if \<not> isfile env (last argv)
      then sys_exit [''File '' @ [CHR 0x27] @ last argv @ [CHR 0x27] @ '' not found.''] (- 1)
      else (case try_detect env argv True of
              (Inl e, tr) \<Rightarrow> \<lparr>stdout = [], exit_status = 1, trace = tr\<rparr>
            | (Inr v, tr) \<Rightarrow> \<lparr>stdout = [str_int (py_int v)], exit_status = 0, trace = tr\<rparr>))"

section \<open>Notions used in the statements\<close>

subsection \<open>Size bounds, attempts and the search order\<close>

text \<open>The integer square root, by halving: it computes \<^verbatim>\<open>int(math.sqrt(n))\<close>, and with it the
  two size bounds of \<^verbatim>\<open>detect_faces\<close> on a concrete image.\<close>

fun isqrt :: "nat \<Rightarrow> nat" where
  "isqrt n =
     (if n = 0 then 0
      else (let r = 2 * isqrt (n div 4) in if (r + 1) * (r + 1) \<le> n then r + 1 else r))"

declare isqrt.simps [simp del]

text \<open>The detector call that \<^verbatim>\<open>detect_faces\<close> makes at rotation offset \<open>k\<close>: the image it
  was given, turned clockwise \<open>k\<close> times, with the flags and the size bounds computed
  before the loop.\<close>

definition attempt :: "image \<Rightarrow> string \<Rightarrow> bool \<Rightarrow> nat \<Rightarrow> det_call" where
  "attempt img cc biggest k =
     faces_call cc (faces_flags biggest) (side_length img 20) (side_length img 2)
       ((rotate_90_clockwise ^^ k) img)"

text \<open>The image \<^verbatim>\<open>try_detect\<close> hands to \<^verbatim>\<open>detect_faces\<close> at scale counter \<open>counter\<close>, when
  \<^verbatim>\<open>cv2.resize\<close> accepts the size: resized to \<open>round(w / counter)\<close> columns and
  \<open>round(h / counter)\<close> rows.\<close>

definition scaled :: "extern \<Rightarrow> image \<Rightarrow> nat \<Rightarrow> image" where
  "scaled env img counter =
     (case shape2 img of (h, w) \<Rightarrow>
        resize_INTER_CUBIC env img
          (nat (py_round (real w / real counter)), nat (py_round (real h / real counter))))"

text \<open>One rotation search: a cascade file name and a scale counter.\<close>

definition run_search :: "extern \<Rightarrow> image \<Rightarrow> bool \<Rightarrow> string \<times> nat \<Rightarrow> pyval \<times> det_call list" where
  "run_search env img biggest = (\<lambda>(c, counter).
     detect_faces env (scaled env img counter) (path_join (haarcascades env) c) biggest)"

text \<open>What the specification asks of the sequencer, in its words: the searches are run in
  order, the first one that reports a result ends everything, and the detector calls made
  are those of the searches run so far.\<close>

fun first_result :: "(pyval \<times> det_call list) list \<Rightarrow> pyval option \<times> det_call list" where
  "first_result [] = (None, [])"
| "first_result ((r, calls) # rest) =
     (if r \<noteq> PyBool False then (Some r, calls)
      else (case first_result rest of (r', calls') \<Rightarrow> (r', calls @ calls')))"

text \<open>The eight searches in the order the two nested loops reach them, the four detector
  calls a search makes when none succeeds, and all thirty-two calls of a run in which no
  search succeeds.\<close>

definition search_order :: "(string \<times> nat) list" where
  "search_order = concat (map (\<lambda>c. [(c, 2), (c, 1)]) CASCADES_TO_USE)"

definition planned_calls :: "extern \<Rightarrow> image \<Rightarrow> bool \<Rightarrow> string \<times> nat \<Rightarrow> det_call list" where
  "planned_calls env img biggest = (\<lambda>(c, counter).
     map (attempt (scaled env img counter) (path_join (haarcascades env) c) biggest) [0, 1, 2, 3])"

definition schedule :: "extern \<Rightarrow> image \<Rightarrow> bool \<Rightarrow> det_call list" where
  "schedule env img biggest = concat (map (planned_calls env img biggest) search_order)"

subsection \<open>Bands and their brightness\<close>

text \<open>An image that both loops of the script can resize: an array with at least two rows
  and two columns, so that \<open>round(h/2)\<close>, \<open>round(w/2)\<close> and the four chunks have no zero
  side.\<close>

definition sizeable :: "image \<Rightarrow> bool" where
  "sizeable img = (is_array img \<and> (case shape2 img of (h, w) \<Rightarrow> 2 \<le> h \<and> 2 \<le> w))"

text \<open>The chunk stored under a key, and the sample computed from it when \<^verbatim>\<open>cv2.resize\<close>
  accepts the chunk.\<close>

definition band :: "image \<Rightarrow> position \<Rightarrow> image" where
  "band img p = (case map_of (chunks_of img) p of Some chunk \<Rightarrow> chunk | None \<Rightarrow> [])"

definition brightness :: "extern \<Rightarrow> image \<Rightarrow> position \<Rightarrow> real" where
  "brightness env img p =
     mean0 env (GaussianBlur env (resize_INTER_CUBIC env (band img p) (5, 5)) (5, 5) BORDER_DEFAULT)"

text \<open>The place of a key in \<^verbatim>\<open>rotation_map\<close>.\<close>

fun table_order :: "position \<Rightarrow> nat" where
  "table_order Top = 0"
| "table_order Left = 1"
| "table_order Bottom = 2"
| "table_order Right = 3"

text \<open>Rows by real bounds: the rows whose index lies in \<open>[lo, hi)\<close>.\<close>

definition rows_in :: "image \<Rightarrow> real \<Rightarrow> real \<Rightarrow> image" where
  "rows_in img lo hi = map (\<lambda>i. img ! i) (filter (\<lambda>i. lo \<le> real i \<and> real i < hi) [0..<length img])"

subsection \<open>Grids\<close>

text \<open>An image given by its pixel function.\<close>

definition grid :: "nat \<Rightarrow> nat \<Rightarrow> (nat \<Rightarrow> nat \<Rightarrow> pixel) \<Rightarrow> image" where
  "grid h w f = map (\<lambda>i. map (\<lambda>j. f i j) [0..<w]) [0..<h]"

subsection \<open>A laboratory environment\<close>

text \<open>
  Simple stand-ins for the collaborators, to run the model on concrete inputs: two files
  in the directory \<^verbatim>\<open>/scans\<close>, \<^verbatim>\<open>photo.png\<close> holding a 2 x 2 BGR image and \<^verbatim>\<open>strip.png\<close>
  holding one of a single row and two columns; contrast scaling with
  saturation at 255; the usual luminance weights in integer arithmetic; resizing by
  nearest neighbour; no equalisation and no blur; the mean over the first channel.  The
  detector is a parameter.
\<close>

definition photo :: image where
  "photo = [[[0, 0, 0], [200, 0, 0]], [[0, 255, 255], [200, 0, 0]]]"

definition strip :: image where
  "strip = [[[0, 0, 0], [200, 0, 0]]]"

text \<open>The same two images after the three preprocessing steps of the laboratory.\<close>

definition gray_strip :: image where
  "gray_strip = [[[0], [29]]]"


definition gray_photo :: image where
  "gray_photo = [[[0], [29]], [[226], [29]]]"

definition nearest :: "image \<Rightarrow> nat \<times> nat \<Rightarrow> image" where
  "nearest img dsize =
     (case (shape2 img, dsize) of ((h0, w0), (w, h)) \<Rightarrow>
        map (\<lambda>i. map (\<lambda>j. img ! (i * h0 div h) ! (j * w0 div w)) [0..<w]) [0..<h])"

definition first_channel_mean :: "image \<Rightarrow> real" where
  "first_channel_mean img =
     real (sum_list (map (\<lambda>p. case p of [] \<Rightarrow> 0 | v # _ \<Rightarrow> v) (concat img)))
       / real (length (concat img))"

definition lab :: "(det_call \<Rightarrow> box list) \<Rightarrow> extern" where
  "lab det =
     \<lparr>haarcascades = ''/cv2/data/'',
      abspath = (\<lambda>p. ''/scans/'' @ p),
      isfile = (\<lambda>p. p = ''photo.png'' \<or> p = ''strip.png''),
      imread = (\<lambda>p. if p = ''/scans/photo.png'' then Some photo
                     else if p = ''/scans/strip.png'' then Some strip else None),
      convertScaleAbs =
        (\<lambda>img a b. map (map (map (\<lambda>v. nat (min 255 (py_round (a * real v + b)))))) img),
      cvtColor_BGR2GRAY =
        (\<lambda>img. map (map (\<lambda>p. case p of
                                [b, g, r] \<Rightarrow> [(114 * b + 587 * g + 299 * r + 500) div 1000]
                              | _ \<Rightarrow> p)) img),
      equalizeHist = (\<lambda>img. img),
      resize_INTER_CUBIC = nearest,
      GaussianBlur = (\<lambda>img ksize sigma. img),
      mean0 = first_channel_mean,
      detectMultiScale = det\<rparr>"

text \<open>Three detectors: one that never finds anything, one that always finds a face, and one
  that finds a face in exactly one image.\<close>

definition no_faces :: "det_call \<Rightarrow> box list" where
  "no_faces c = []"

definition always_face :: "det_call \<Rightarrow> box list" where
  "always_face c = [(0, 0, 1, 1)]"

definition face_in :: "image \<Rightarrow> det_call \<Rightarrow> box list" where
  "face_in upright c = (if frame c = upright then [(0, 0, 1, 1)] else [])"

text \<open>A grayscale tile with four different pixels, and a 4 x 4 one with sixteen.\<close>

definition tile :: image where
  "tile = [[[10], [20]], [[30], [40]]]"

definition quad :: image where
  "quad = [[[1], [2], [3], [4]], [[5], [6], [7], [8]], [[9], [10], [11], [12]], [[13], [14], [15], [16]]]"

definition flat :: image where
  "flat = [[[7], [7]], [[7], [7]]]"

definition argv0 :: "string list" where
  "argv0 = [''whatsup.py'', ''photo.png'']"

definition argv1 :: "string list" where
  "argv1 = [''whatsup.py'', ''strip.png'']"

section \<open>Evaluating the size bounds\<close>

lemma isqrt_bounds: "isqrt n * isqrt n \<le> n \<and> n < (isqrt n + 1) * (isqrt n + 1)"
proof (induction n rule: isqrt.induct)
  case (1 n)
  show ?case
  proof (cases "n = 0")
    case True
    then show ?thesis by (simp add: isqrt.simps)
  next
    case False
    define s where "s = isqrt (n div 4)"
    have IH: "s * s \<le> n div 4" "n div 4 < (s + 1) * (s + 1)"
      using 1[OF False] by (simp_all add: s_def)
    have lo: "(2 * s) * (2 * s) \<le> n"
    proof -
      have "4 * (s * s) \<le> 4 * (n div 4)" using IH(1) by simp
      also have "\<dots> \<le> n" by simp
      finally show ?thesis by (simp add: algebra_simps)
    qed
    have hi: "n < (2 * s + 2) * (2 * s + 2)"
    proof -
      have "n div 4 + 1 \<le> (s + 1) * (s + 1)" using IH(2) by simp
      then have "4 * (n div 4) + 4 \<le> 4 * ((s + 1) * (s + 1))" by simp
      moreover have "n < 4 * (n div 4) + 4" by presburger
      ultimately have "n < 4 * ((s + 1) * (s + 1))" by linarith
      then show ?thesis by (simp add: algebra_simps)
    qed
    have eq: "isqrt n = (if (2 * s + 1) * (2 * s + 1) \<le> n then 2 * s + 1 else 2 * s)"
      using False by (subst isqrt.simps) (simp add: s_def Let_def)
    show ?thesis
      using lo hi by (simp add: eq)
  qed
qed

lemma floor_sqrt_isqrt: "\<lfloor>sqrt (real n)\<rfloor> = int (isqrt n)"
proof (rule floor_unique)
  have "(real (isqrt n))\<^sup>2 \<le> real n"
    using isqrt_bounds[of n] by (metis of_nat_le_iff of_nat_mult power2_eq_square)
  then show "of_int (int (isqrt n)) \<le> sqrt (real n)"
    by (simp add: real_le_rsqrt)
  have "real n < (real (isqrt n) + 1)\<^sup>2"
  proof -
    have "real n < real ((isqrt n + 1) * (isqrt n + 1))"
      using isqrt_bounds[of n] by (simp only: of_nat_less_iff)
    then show ?thesis by (simp add: power2_eq_square algebra_simps)
  qed
  then show "sqrt (real n) < of_int (int (isqrt n)) + 1"
    by (simp add: real_less_lsqrt)
qed

lemma side_length_isqrt: "side_length img d = isqrt (size_of img) div d"
proof -
  have "\<lfloor>sqrt (real (size_of img)) / real_of_int (int d)\<rfloor> = \<lfloor>sqrt (real (size_of img))\<rfloor> div int d"
    by (rule floor_divide_real_eq_div) simp
  then show ?thesis
    by (simp add: side_length_def floor_sqrt_isqrt zdiv_int[symmetric] del: zdiv_int)
qed

section \<open>The loops, unfolded\<close>

lemma detect_faces_loop_unfold:
  "detect_faces_loop env cc f mn mx img 0 =
     (let c = (\<lambda>k. faces_call cc f mn mx ((rotate_90_clockwise ^^ k) img));
          d = (\<lambda>k. detectMultiScale env (c k) \<noteq> [])
      in if d 0 then (PyInt 0, [c 0])
         else if d 1 then (PyInt 90, [c 0, c 1])
         else if d 2 then (PyInt 180, [c 0, c 1, c 2])
         else if d 3 then (PyInt 270, [c 0, c 1, c 2, c 3])
         else (PyBool False, [c 0, c 1, c 2, c 3]))"
proof -
  have s: "\<And>i n. detect_faces_loop env cc f mn mx i n =
     (if n < 4 then
        (if detectMultiScale env (faces_call cc f mn mx i) \<noteq> []
            then (PyInt (int n * 90), [faces_call cc f mn mx i])
            else (case detect_faces_loop env cc f mn mx (rotate_90_clockwise i) (n + 1) of
                    (r, calls) \<Rightarrow> (r, faces_call cc f mn mx i # calls)))
      else (PyBool False, []))"
    by (subst detect_faces_loop.simps) (simp add: rotation_maximum_def Let_def)
  have e: "detect_faces_loop env cc f mn mx i 4 = (PyBool False, [])" for i
    by (subst s) simp
  have l3: "detect_faces_loop env cc f mn mx i 3 =
      (if detectMultiScale env (faces_call cc f mn mx i) \<noteq> []
       then (PyInt 270, [faces_call cc f mn mx i])
       else (PyBool False, [faces_call cc f mn mx i]))" for i
    by (subst s) (simp add: e)
  have l2: "detect_faces_loop env cc f mn mx i 2 =
      (if detectMultiScale env (faces_call cc f mn mx i) \<noteq> []
       then (PyInt 180, [faces_call cc f mn mx i])
       else (case detect_faces_loop env cc f mn mx (rotate_90_clockwise i) 3 of
                    (r, calls) \<Rightarrow> (r, faces_call cc f mn mx i # calls)))" for i
    by (subst s) simp
  have l1: "detect_faces_loop env cc f mn mx i 1 =
      (if detectMultiScale env (faces_call cc f mn mx i) \<noteq> []
       then (PyInt 90, [faces_call cc f mn mx i])
       else (case detect_faces_loop env cc f mn mx (rotate_90_clockwise i) 2 of
                    (r, calls) \<Rightarrow> (r, faces_call cc f mn mx i # calls)))" for i
    by (subst s) (simp add: numeral_2_eq_2)
  have l0: "detect_faces_loop env cc f mn mx i 0 =
      (if detectMultiScale env (faces_call cc f mn mx i) \<noteq> []
       then (PyInt 0, [faces_call cc f mn mx i])
       else (case detect_faces_loop env cc f mn mx (rotate_90_clockwise i) 1 of
                    (r, calls) \<Rightarrow> (r, faces_call cc f mn mx i # calls)))" for i
    by (subst s) simp
  show ?thesis
    unfolding l0 l1 l2 l3 by (simp add: Let_def eval_nat_numeral)
qed

lemma detect_faces_unfold:
  "detect_faces env img cc biggest =
     (let c = attempt img cc biggest;
          d = (\<lambda>k. detectMultiScale env (c k) \<noteq> [])
      in if d 0 then (PyInt 0, [c 0])
         else if d 1 then (PyInt 90, [c 0, c 1])
         else if d 2 then (PyInt 180, [c 0, c 1, c 2])
         else if d 3 then (PyInt 270, [c 0, c 1, c 2, c 3])
         else (PyBool False, [c 0, c 1, c 2, c 3]))"
  unfolding detect_faces_def Let_def detect_faces_loop_unfold attempt_def by (rule refl)

lemma detect_faces_result:
  "fst (detect_faces env img cc biggest) \<in> {PyInt 0, PyInt 90, PyInt 180, PyInt 270, PyBool False}"
  by (simp add: detect_faces_unfold Let_def)

lemma detect_faces_length: "length (snd (detect_faces env img cc biggest)) \<le> 4"
  by (simp add: detect_faces_unfold Let_def)

lemma detect_faces_none:
  "(\<And>c. detectMultiScale env c = []) \<Longrightarrow>
   detect_faces env img cc biggest = (PyBool False, map (attempt img cc biggest) [0, 1, 2, 3])"
  by (simp add: detect_faces_unfold Let_def)

lemma detect_faces_at_once:
  "detectMultiScale env (attempt img cc biggest 0) \<noteq> [] \<Longrightarrow>
   detect_faces env img cc biggest = (PyInt 0, [attempt img cc biggest 0])"
  by (simp add: detect_faces_unfold Let_def)

section \<open>Rounding the quotients\<close>

lemma py_round_nat_div:
  assumes "0 < b"
  shows "py_round (real a / real b) =
           int (a div b + (if 2 * (a mod b) < b then 0
                           else if b < 2 * (a mod b) then 1
                           else if even (a div b) then 0 else 1))"
proof -
  have f: "\<lfloor>real a / real b\<rfloor> = int (a div b)"
    by (simp add: floor_divide_of_nat_eq)
  have "real a = real (a div b) * real b + real (a mod b)"
    by (metis div_mult_mod_eq of_nat_add of_nat_mult)
  then have d: "real a / real b - real (a div b) = real (a mod b) / real b"
    using assms by (simp add: field_simps)
  have lt: "(real (a mod b) / real b < 1 / 2) = (2 * (a mod b) < b)"
  proof -
    have "(real (a mod b) / real b < 1 / 2) = (2 * real (a mod b) < real b)"
      using assms by (simp add: field_simps)
    also have "\<dots> = (real (2 * (a mod b)) < real b)" by simp
    also have "\<dots> = (2 * (a mod b) < b)" by (simp only: of_nat_less_iff)
    finally show ?thesis .
  qed
  have gt: "(1 / 2 < real (a mod b) / real b) = (b < 2 * (a mod b))"
  proof -
    have "(1 / 2 < real (a mod b) / real b) = (real b < 2 * real (a mod b))"
      using assms by (simp add: field_simps)
    also have "\<dots> = (real b < real (2 * (a mod b)))" by simp
    also have "\<dots> = (b < 2 * (a mod b))" by (simp only: of_nat_less_iff)
    finally show ?thesis .
  qed
  show ?thesis
    unfolding py_round_def Let_def f
    by (simp only: of_int_of_nat_eq d lt gt) simp
qed

lemma py_round_ge_div: "0 < b \<Longrightarrow> int (a div b) \<le> py_round (real a / real b)"
  by (simp add: py_round_nat_div)

lemma round_half_pos: "2 \<le> h \<Longrightarrow> 0 < nat (py_round (real h / real 2))"
proof -
  assume h: "2 \<le> h"
  then have "1 \<le> h div 2" by simp
  then have "1 \<le> int (h div 2)" by simp
  also have "\<dots> \<le> py_round (real h / real 2)" by (rule py_round_ge_div) simp
  finally show ?thesis by simp
qed

lemma round_half_small: "h < 2 \<Longrightarrow> nat (py_round (real h / real 2)) = 0"
proof -
  assume "h < 2"
  then have "h = 0 \<or> h = 1" by auto
  then show ?thesis by (auto simp: py_round_def Let_def)
qed

lemma round_whole: "nat (py_round (real h / real (Suc 0))) = h"
  using py_round_nat_div[of "Suc 0" h] by simp

lemma third_step: "(a::nat) div 3 + (if 2 * (a mod 3) < 3 then 0 else 1) = (a + 1) div 3"
  by presburger

lemma round_third: "nat (py_round (real h / real 3)) = (h + 1) div 3"
proof -
  have "py_round (real h / real 3) = int (h div 3 + (if 2 * (h mod 3) < 3 then 0 else 1))"
  proof (cases "2 * (h mod 3) < 3")
    case True
    then show ?thesis using py_round_nat_div[of 3 h] by simp
  next
    case False
    then have "3 < 2 * (h mod 3)" by presburger
    then show ?thesis using False py_round_nat_div[of 3 h] by simp
  qed
  then show ?thesis unfolding third_step by simp
qed

lemma round_two_thirds: "nat (py_round (real 2 * (real h / real 3))) = (2 * h + 1) div 3"
proof -
  have e: "real 2 * (real h / real 3) = real (2 * h) / real 3" by simp
  show ?thesis unfolding e by (rule round_third)
qed

lemma round_thirds_plain:
  "nat (py_round (real h / 3)) = (h + 1) div 3"
  "nat (py_round (2 * (real h / 3))) = (2 * h + 1) div 3"
  using round_third[of h] round_two_thirds[of h] by simp_all

section \<open>The two loops of try\_detect, unfolded\<close>

lemma sizeable_shape:
  assumes "sizeable img"
  obtains h w where "shape2 img = (h, w)" "2 \<le> h" "2 \<le> w" "is_array img"
  using assms by (cases "shape2 img") (auto simp: sizeable_def)

lemma resize_scaled:
  assumes "sizeable img" and "counter = 2 \<or> counter = Suc 0"
  shows "(case shape2 img of (image_h, image_w) \<Rightarrow>
            cv2_resize env img (nat (py_round (real image_w / real counter)),
                                nat (py_round (real image_h / real counter)))) =
         Inr (scaled env img counter)"
proof -
  obtain h w where s: "shape2 img = (h, w)" "2 \<le> h" "2 \<le> w"
    using assms(1) by (rule sizeable_shape)
  have "0 < nat (py_round (real w / real counter))" "0 < nat (py_round (real h / real counter))"
    using assms(2) s(2,3) round_half_pos[of h] round_half_pos[of w] round_whole[of h] round_whole[of w]
    by auto
  then show ?thesis
    using s by (simp add: cv2_resize_def scaled_def)
qed

lemma resize_refused:
  assumes "shape2 img = (h, w)" and "h < 2 \<or> w < 2"
  shows "cv2_resize env img (nat (py_round (real w / real 2)), nat (py_round (real h / real 2))) =
           Inl Cv2Error"
  using assms round_half_small[of h] round_half_small[of w]
  by (auto simp: cv2_resize_def)

lemma scale_loop_unfold:
  assumes "sizeable img"
  shows "scale_loop env cc img biggest 2 =
     (case first_result [detect_faces env (scaled env img 2) cc biggest,
                         detect_faces env (scaled env img 1) cc biggest] of
        (r, calls) \<Rightarrow> (Inr r, calls))"
proof -
  have z: "scale_loop env cc img biggest 0 = (Inr None, [])"
    by (subst scale_loop.simps) (simp add: count_minimum_def)
  note r1 = resize_scaled[OF assms, of "Suc 0" env, simplified]
  note r2 = resize_scaled[OF assms, of 2 env, simplified]
  have o: "scale_loop env cc img biggest (Suc 0) =
      (case first_result [detect_faces env (scaled env img 1) cc biggest] of
         (r, calls) \<Rightarrow> (Inr r, calls))"
    using r1
    by (subst scale_loop.simps)
       (simp add: count_minimum_def z Let_def is_not_False_def split: prod.splits)
  show ?thesis
    using r2
    by (subst scale_loop.simps)
       (simp add: count_minimum_def o Let_def is_not_False_def split: prod.splits)
qed

lemma scale_loop_refused:
  assumes "shape2 img = (h, w)" and "h < 2 \<or> w < 2"
  shows "scale_loop env cc img biggest 2 = (Inl Cv2Error, [])"
  using resize_refused[OF assms, of env] assms(1)
  by (subst scale_loop.simps) (simp add: count_minimum_def Let_def)

lemma first_result_append:
  "first_result (xs @ ys) =
     (case first_result xs of
        (Some r, calls) \<Rightarrow> (Some r, calls)
      | (None, calls) \<Rightarrow> (case first_result ys of (r', calls') \<Rightarrow> (r', calls @ calls')))"
  by (induction xs rule: first_result.induct) (auto split: prod.splits option.splits)

lemma first_result_fst:
  "fst (first_result rs) = Some r \<Longrightarrow> r \<in> fst ` set rs \<and> r \<noteq> PyBool False"
  by (induction rs rule: first_result.induct) (auto split: prod.splits if_splits)

lemma first_result_length:
  "length (snd (first_result rs)) \<le> sum_list (map (\<lambda>r. length (snd r)) rs)"
  by (induction rs rule: first_result.induct) (auto split: prod.splits if_splits)

lemma first_result_none:
  "list_all (\<lambda>r. fst r = PyBool False) rs \<Longrightarrow> first_result rs = (None, concat (map snd rs))"
  by (induction rs rule: first_result.induct) (auto split: prod.splits if_splits)

lemma first_result_skip:
  "list_all (\<lambda>r. fst r = PyBool False) xs \<Longrightarrow> r \<noteq> PyBool False \<Longrightarrow>
   first_result (xs @ (r, calls) # ys) = (Some r, concat (map snd xs) @ calls)"
  by (induction xs rule: first_result.induct) (auto split: prod.splits if_splits)

lemma cascade_loop_first_result:
  assumes "sizeable img"
  shows "cascade_loop env img biggest cs =
     (case first_result (concat (map (\<lambda>c. [run_search env img biggest (c, 2),
                                              run_search env img biggest (c, 1)]) cs)) of
        (r, calls) \<Rightarrow> (Inr r, calls))"
proof (induction cs)
  case Nil
  show ?case by simp
next
  case (Cons p cs)
  define A where "A = [run_search env img biggest (p, 2), run_search env img biggest (p, 1)]"
  define B where "B = concat (map (\<lambda>c. [run_search env img biggest (c, 2),
                                              run_search env img biggest (c, 1)]) cs)"
  obtain ra ca where a: "first_result A = (ra, ca)" by (cases "first_result A")
  obtain rb cb where b: "first_result B = (rb, cb)" by (cases "first_result B")
  have s: "scale_loop env (path_join (haarcascades env) p) img biggest 2 = (Inr ra, ca)"
    using a by (simp add: scale_loop_unfold[OF assms] A_def run_search_def)
  have t: "cascade_loop env img biggest cs = (Inr rb, cb)"
    using b by (simp add: Cons.IH B_def)
  have "cascade_loop env img biggest (p # cs) =
          (case first_result (A @ B) of (r, calls) \<Rightarrow> (Inr r, calls))"
    by (cases ra) (simp_all add: Let_def s t first_result_append a b)
  then show ?case by (simp add: A_def B_def)
qed

lemma cascade_loop_refused:
  assumes "shape2 img = (h, w)" and "h < 2 \<or> w < 2"
  shows "cascade_loop env img biggest (c # cs) = (Inl Cv2Error, [])"
  by (simp add: Let_def scale_loop_refused[OF assms])

lemma array_rows:
  assumes "is_array img" and "shape2 img = (h, w)"
  shows "length img = h" and "0 < h" and "0 < w" and "\<And>r. r \<in> set img \<Longrightarrow> length r = w"
  using assms by (auto simp: is_array_def shape2_def list_all_iff)

lemma array_hd:
  assumes "is_array img" and "shape2 img = (h, w)"
  shows "img \<noteq> []" and "length (hd img) = w"
proof -
  show ne: "img \<noteq> []" using array_rows(1,2)[OF assms] by auto
  then have "hd img \<in> set img" by simp
  then show "length (hd img) = w" by (rule array_rows(4)[OF assms])
qed

lemma round_two_thirds_plain: "nat (py_round (2 * real h / 3)) = (2 * h + 1) div 3"
  using round_thirds_plain(2)[of h] by simp

lemma bands_of_array:
  assumes "is_array img" and "shape2 img = (h, w)"
  shows "band img Top = take ((h + 1) div 3) img"
    and "band img Left = map (take ((w + 1) div 3)) img"
    and "band img Bottom = drop ((2 * h + 1) div 3) img"
    and "band img Right = map (drop ((2 * w + 1) div 3)) img"
proof -
  note r = array_rows[OF assms]
  have full: "map (\<lambda>row. take w row) img = img"
    by (rule map_idI) (simp add: r(4))
  show "band img Top = take ((h + 1) div 3) img"
    using full
    by (simp add: band_def chunks_of_def assms(2) Let_def slice_def round_thirds_plain take_map[symmetric])
  show "band img Left = map (take ((w + 1) div 3)) img"
    by (simp add: band_def chunks_of_def assms(2) Let_def slice_def round_thirds_plain round_two_thirds_plain r(1))
  show "band img Bottom = drop ((2 * h + 1) div 3) img"
    using full
    by (simp add: band_def chunks_of_def assms(2) Let_def slice_def round_thirds_plain round_two_thirds_plain r(1)
          drop_map[symmetric])
  have right: "take (w - c) (drop c row) = drop c row" if "row \<in> set img" for row c
    using r(4)[OF that] by simp
  show "band img Right = map (drop ((2 * w + 1) div 3)) img"
    by (simp add: band_def chunks_of_def assms(2) Let_def slice_def round_thirds_plain round_two_thirds_plain r(1) right)
qed

section \<open>The brightest side, unfolded\<close>

lemma shape2_positive:
  assumes "xs \<noteq> []" and "hd xs \<noteq> []"
  shows "shape2 xs = (length xs, length (hd xs))" and "0 < length xs" and "0 < length (hd xs)"
  using assms by (cases xs, simp_all add: shape2_def)+

lemma third_bounds:
  assumes "2 \<le> (h::nat)"
  shows "0 < (h + 1) div 3" and "(2 * h + 1) div 3 < h"
  using assms by presburger+

lemma bands_not_empty:
  assumes "sizeable img"
  shows "band img p \<noteq> [] \<and> hd (band img p) \<noteq> []"
proof -
  obtain h w where s: "shape2 img = (h, w)" "2 \<le> h" "2 \<le> w" "is_array img"
    using assms by (rule sizeable_shape)
  note b = bands_of_array[OF s(4) s(1)]
  note r = array_rows[OF s(4) s(1)]
  note hd = array_hd[OF s(4) s(1)]
  note th = third_bounds[OF s(2)]
  note tw = third_bounds[OF s(3)]
  show ?thesis
  proof (cases p)
    case Top
    then show ?thesis using hd th(1) r(3) by (auto simp: b(1))
  next
    case Left
    then show ?thesis using hd tw(1) r(3) by (auto simp: b(2) hd_map)
  next
    case Bottom
    have "(2 * h + 1) div 3 < length img" using th(2) r(1) by simp
    moreover from this have "img ! ((2 * h + 1) div 3) \<in> set img" by simp
    then have "length (img ! ((2 * h + 1) div 3)) = w" by (rule r(4))
    ultimately show ?thesis using Bottom r(3) by (auto simp: b(3) hd_drop_conv_nth)
  next
    case Right
    then show ?thesis using hd tw(2) r(3) by (auto simp: b(4) hd_map)
  qed
qed

lemma sample_band:
  assumes "sizeable img"
  shows "sample env (band img p) = Inr (brightness env img p)"
proof -
  from bands_not_empty[OF assms, of p] shape2_positive[of "band img p"]
  have "shape2 (band img p) = (length (band img p), length (hd (band img p)))"
    "0 < length (band img p)" "0 < length (hd (band img p))"
    by simp_all
  then show ?thesis
    by (simp add: sample_def cv2_resize_def brightness_def)
qed

lemma chunks_bands:
  "chunks_of img = [(Top, band img Top), (Left, band img Left), (Bottom, band img Bottom),
                    (Right, band img Right)]"
  by (simp add: band_def chunks_of_def Let_def split: prod.splits)

lemma detect_brightest_side_unfold:
  assumes "sizeable img"
  shows "detect_brightest_side env img =
     Inr (rotation_map (max_loop Top (brightness env img Top)
            [(Left, brightness env img Left), (Bottom, brightness env img Bottom),
             (Right, brightness env img Right)]))"
  unfolding detect_brightest_side_def Let_def chunks_bands
  by (simp add: sample_band[OF assms])

lemma detect_brightest_side_cases:
  assumes "sizeable img"
  shows "detect_brightest_side env img =
     (let b = brightness env img in
      if b Top < b Left then
        (if b Left < b Bottom then (if b Bottom < b Right then Inr 270 else Inr 180)
         else (if b Left < b Right then Inr 270 else Inr 90))
      else
        (if b Top < b Bottom then (if b Bottom < b Right then Inr 270 else Inr 180)
         else (if b Top < b Right then Inr 270 else Inr 0)))"
  by (simp add: detect_brightest_side_unfold[OF assms] Let_def)

lemma detect_brightest_side_range:
  assumes "sizeable img"
  shows "\<exists>n. detect_brightest_side env img = Inr n \<and> n \<in> {0, 90, 180, 270}"
  by (simp add: detect_brightest_side_cases[OF assms] Let_def)

lemma detect_brightest_side_refused:
  assumes "shape2 (band img Top) = (h, w)" and "h = 0 \<or> w = 0"
  shows "detect_brightest_side env img = Inl Cv2Error"
  unfolding detect_brightest_side_def Let_def chunks_bands
  using assms by (auto simp: sample_def cv2_resize_def)

section \<open>try\_detect as a search\<close>

lemma search_order_eq:
  "search_order =
     [(''haarcascade_profileface.xml'', 2), (''haarcascade_profileface.xml'', 1),
      (''haarcascade_fullbody.xml'', 2), (''haarcascade_fullbody.xml'', 1),
      (''haarcascade_frontalface_alt.xml'', 2), (''haarcascade_frontalface_alt.xml'', 1),
      (''haarcascade_frontalface_default.xml'', 2), (''haarcascade_frontalface_default.xml'', 1)]"
  by (simp add: search_order_def CASCADES_TO_USE_def)

lemma run_search_exhausted:
  assumes "list_all (\<lambda>c. detectMultiScale env c = []) (planned_calls env img biggest cs)"
  shows "run_search env img biggest cs = (PyBool False, planned_calls env img biggest cs)"
proof -
  obtain c counter where cs: "cs = (c, counter)" by (cases cs)
  show ?thesis
    using assms unfolding cs
    by (simp add: planned_calls_def run_search_def detect_faces_unfold Let_def)
qed

lemma searches_exhausted:
  assumes "list_all (\<lambda>c. detectMultiScale env c = []) (concat (map (planned_calls env img biggest) ps))"
  shows "first_result (map (run_search env img biggest) ps) =
           (None, concat (map (planned_calls env img biggest) ps))"
  using assms
proof (induction ps)
  case Nil
  show ?case by simp
next
  case (Cons p ps)
  then have a: "list_all (\<lambda>c. detectMultiScale env c = []) (planned_calls env img biggest p)"
    and b: "list_all (\<lambda>c. detectMultiScale env c = []) (concat (map (planned_calls env img biggest) ps))"
    by simp_all
  show ?case
    by (simp add: run_search_exhausted[OF a] Cons.IH[OF b])
qed

lemma length_schedule: "length (schedule env img biggest) = 32"
  by (simp add: schedule_def search_order_eq planned_calls_def)

lemma run_search_length: "length (snd (run_search env img biggest cs)) \<le> 4"
  by (cases cs) (simp add: run_search_def detect_faces_length)

lemma searches_length:
  "length (snd (first_result (map (run_search env img biggest) ps))) \<le> 4 * length ps"
proof -
  have "sum_list (map (\<lambda>r. length (snd r)) (map (run_search env img biggest) ps)) \<le> 4 * length ps"
    by (induction ps) (simp_all add: add_mono run_search_length)
  then show ?thesis
    using first_result_length[of "map (run_search env img biggest) ps"] by linarith
qed

lemma searches_result:
  assumes "fst (first_result (map (run_search env img biggest) ps)) = Some r"
  shows "r \<in> {PyInt 0, PyInt 90, PyInt 180, PyInt 270}"
proof -
  from first_result_fst[OF assms] obtain p where
    "r = fst (run_search env img biggest p)" "r \<noteq> PyBool False" by auto
  then show ?thesis
    using detect_faces_result[of env "scaled env img (snd p)" "path_join (haarcascades env) (fst p)" biggest]
    by (cases p) (auto simp: run_search_def)
qed

lemma preprocess_eq:
  "preprocess env img = equalizeHist env (cvtColor_BGR2GRAY env (convertScaleAbs env img (5 / 4) 0))"
  by (simp add: preprocess_def Let_def)

lemma str_int_values:
  "str_int 0 = ''0''" "str_int 90 = ''90''" "str_int 180 = ''180''" "str_int 270 = ''270''"
  by (simp_all add: str_int_def str_nat.simps)

lemma main_valid:
  assumes "length argv = 2" and "isfile env (last argv)"
  shows "main env argv =
     (case try_detect env argv True of
        (Inl e, tr) \<Rightarrow> \<lparr>stdout = [], exit_status = 1, trace = tr\<rparr>
      | (Inr v, tr) \<Rightarrow> \<lparr>stdout = [str_int (py_int v)], exit_status = 0, trace = tr\<rparr>)"
  using assms by (simp add: main_def)


lemma cascade_loop_search_order:
  assumes "sizeable img"
  shows "cascade_loop env img biggest CASCADES_TO_USE =
     (case first_result (map (run_search env img biggest) search_order) of
        (r, calls) \<Rightarrow> (Inr r, calls))"
  unfolding cascade_loop_first_result[OF assms] search_order_def
  by (simp add: map_concat o_def)

lemma try_detect_search_order:
  assumes "argv \<noteq> []" and "imread env (abspath env (last argv)) = Some loaded"
    and "sizeable (preprocess env loaded)"
  shows "try_detect env argv biggest =
     (case first_result (map (run_search env (preprocess env loaded) biggest) search_order) of
        (Some r, calls) \<Rightarrow> (Inr r, Imread (abspath env (last argv)) # map Detect calls)
      | (None, calls) \<Rightarrow>
          (map_sum id PyInt (detect_brightest_side env (preprocess env loaded)),
           Imread (abspath env (last argv)) # map Detect calls))"
proof -
  define rs where "rs = first_result (map (run_search env (preprocess env loaded) biggest) search_order)"
  obtain x calls where f: "rs = (x, calls)" by (cases rs)
  have c: "cascade_loop env (preprocess env loaded) biggest CASCADES_TO_USE = (Inr x, calls)"
    using f by (simp add: cascade_loop_search_order[OF assms(3)] rs_def)
  obtain n where n: "detect_brightest_side env (preprocess env loaded) = Inr n"
    using detect_brightest_side_range[OF assms(3)] by blast
  have "try_detect env argv biggest =
     (case rs of
        (Some r, calls) \<Rightarrow> (Inr r, Imread (abspath env (last argv)) # map Detect calls)
      | (None, calls) \<Rightarrow>
          (map_sum id PyInt (detect_brightest_side env (preprocess env loaded)),
           Imread (abspath env (last argv)) # map Detect calls))"
    using assms(1,2) by (cases x) (simp_all add: try_detect_def Let_def c n f)
  then show ?thesis unfolding rs_def .
qed

lemma try_detect_refused:
  assumes "argv \<noteq> []" and "imread env (abspath env (last argv)) = Some loaded"
    and "shape2 (preprocess env loaded) = (h, w)" and "h < 2 \<or> w < 2"
  shows "try_detect env argv biggest = (Inl Cv2Error, [Imread (abspath env (last argv))])"
proof -
  have c: "cascade_loop env (preprocess env loaded) biggest CASCADES_TO_USE = (Inl Cv2Error, [])"
    unfolding CASCADES_TO_USE_def by (rule cascade_loop_refused[OF assms(3,4)])
  show ?thesis
    using assms(1,2) by (simp add: try_detect_def Let_def c)
qed

lemma try_detect_exhausted:
  assumes "argv \<noteq> []" and "imread env (abspath env (last argv)) = Some loaded"
    and "sizeable (preprocess env loaded)"
    and "list_all (\<lambda>c. detectMultiScale env c = []) (schedule env (preprocess env loaded) biggest)"
  shows "\<exists>n. detect_brightest_side env (preprocess env loaded) = Inr n \<and>
           cascade_loop env (preprocess env loaded) biggest CASCADES_TO_USE =
             (Inr None, schedule env (preprocess env loaded) biggest) \<and>
           try_detect env argv biggest =
             (Inr (PyInt n),
              Imread (abspath env (last argv)) # map Detect (schedule env (preprocess env loaded) biggest))"
proof -
  obtain n where n: "detect_brightest_side env (preprocess env loaded) = Inr n"
    using detect_brightest_side_range[OF assms(3)] by blast
  have f: "first_result (map (run_search env (preprocess env loaded) biggest) search_order) =
             (None, schedule env (preprocess env loaded) biggest)"
    using searches_exhausted[of env "preprocess env loaded" biggest search_order] assms(4)
    by (simp add: schedule_def)
  show ?thesis
    by (simp add: n try_detect_search_order[OF assms(1,2,3)] cascade_loop_search_order[OF assms(3)] f)
qed

lemma try_detect_answer:
  assumes "argv \<noteq> []" and "imread env (abspath env (last argv)) = Some loaded"
    and "sizeable (preprocess env loaded)"
  shows "\<exists>n. n \<in> {0, 90, 180, 270} \<and> fst (try_detect env argv biggest) = Inr (PyInt n)"
proof -
  define img where "img = preprocess env loaded"
  obtain x calls where f: "first_result (map (run_search env img biggest) search_order) = (x, calls)"
    by (cases "first_result (map (run_search env img biggest) search_order)")
  show ?thesis
  proof (cases x)
    case None
    obtain n where "detect_brightest_side env img = Inr n" "n \<in> {0, 90, 180, 270}"
      using detect_brightest_side_range[OF assms(3)] unfolding img_def by blast
    then show ?thesis
      by (auto simp: try_detect_search_order[OF assms] img_def[symmetric] f None)
  next
    case (Some r)
    then have "r \<in> {PyInt 0, PyInt 90, PyInt 180, PyInt 270}"
      using searches_result[of env img biggest search_order r] f by simp
    then show ?thesis
      by (auto simp: try_detect_search_order[OF assms] img_def[symmetric] f Some)
  qed
qed

lemma scale_loop_length: "length (snd (scale_loop env cc img biggest 2)) \<le> 8"
proof -
  have z: "scale_loop env cc img biggest 0 = (Inr None, [])"
    by (subst scale_loop.simps) (simp add: count_minimum_def)
  have d: "length (snd (detect_faces env i cc biggest)) \<le> 4" for i
    by (rule detect_faces_length)
  have o: "length (snd (scale_loop env cc img biggest (Suc 0))) \<le> 4"
  proof -
    obtain h w where s: "shape2 img = (h, w)" by (cases "shape2 img")
    show ?thesis
    proof (cases "cv2_resize env img (nat (py_round (real w / real (Suc 0))), nat (py_round (real h / real (Suc 0))))")
      case (Inl e)
      then show ?thesis
        by (subst scale_loop.simps) (simp add: count_minimum_def s Let_def)
    next
      case (Inr i)
      obtain r calls where df: "detect_faces env i cc biggest = (r, calls)"
        by (cases "detect_faces env i cc biggest")
      have "length calls \<le> 4" using d[of i] df by simp
      then show ?thesis
        using Inr by (subst scale_loop.simps) (simp add: count_minimum_def s Let_def df z)
    qed
  qed
  obtain h w where s: "shape2 img = (h, w)" by (cases "shape2 img")
  show ?thesis
  proof (cases "cv2_resize env img (nat (py_round (real w / real 2)), nat (py_round (real h / real 2)))")
    case (Inl e)
    then show ?thesis
      by (subst scale_loop.simps) (simp add: count_minimum_def s Let_def)
  next
    case (Inr i)
    obtain r calls where df: "detect_faces env i cc biggest = (r, calls)"
      by (cases "detect_faces env i cc biggest")
    obtain r' calls' where sl: "scale_loop env cc img biggest (Suc 0) = (r', calls')"
      by (cases "scale_loop env cc img biggest (Suc 0)")
    have "length calls \<le> 4" using d[of i] df by simp
    moreover have "length calls' \<le> 4" using o sl by simp
    ultimately show ?thesis
      using Inr by (subst scale_loop.simps) (simp add: count_minimum_def s Let_def df sl)
  qed
qed

lemma cascade_loop_length: "length (snd (cascade_loop env img biggest cs)) \<le> 8 * length cs"
proof (induction cs)
  case Nil
  show ?case by simp
next
  case (Cons c cs)
  obtain r calls where sl: "scale_loop env (path_join (haarcascades env) c) img biggest 2 = (r, calls)"
    by (cases "scale_loop env (path_join (haarcascades env) c) img biggest 2")
  obtain r' calls' where cl: "cascade_loop env img biggest cs = (r', calls')"
    by (cases "cascade_loop env img biggest cs")
  have "length calls \<le> 8"
    using scale_loop_length[of env "path_join (haarcascades env) c" img biggest] sl by simp
  moreover have "length calls' \<le> 8 * length cs"
    using Cons.IH cl by simp
  ultimately show ?case
    by (simp add: Let_def sl cl split: sum.splits option.splits)
qed

lemma try_detect_returns:
  assumes "argv \<noteq> []" and "imread env (abspath env (last argv)) = Some loaded"
  shows "\<exists>r calls. try_detect env argv biggest = (r, Imread (abspath env (last argv)) # map Detect calls) \<and>
                    length calls \<le> 32"
proof -
  obtain r calls where cl: "cascade_loop env (preprocess env loaded) biggest CASCADES_TO_USE = (r, calls)"
    by (cases "cascade_loop env (preprocess env loaded) biggest CASCADES_TO_USE")
  have "length calls \<le> 8 * length CASCADES_TO_USE"
    using cascade_loop_length[of env "preprocess env loaded" biggest CASCADES_TO_USE] cl by simp
  then have "length calls \<le> 32"
    by (simp add: CASCADES_TO_USE_def)
  then show ?thesis
    using assms by (auto simp: try_detect_def Let_def cl split: sum.splits option.splits)
qed

section \<open>Quarter turns of an array\<close>

lemma shape2_grid: "0 < h \<Longrightarrow> shape2 (grid h w f) = (h, w)"
proof -
  assume h: "0 < h"
  then have "[0..<h] = 0 # [Suc 0..<h]" by (simp add: upt_conv_Cons)
  then show ?thesis using h by (simp add: shape2_def grid_def)
qed

lemma grid_cong: "(\<And>i j. i < h \<Longrightarrow> j < w \<Longrightarrow> f i j = g i j) \<Longrightarrow> grid h w f = grid h w g"
  by (simp add: grid_def)

lemma rotate_grid:
  "0 < h \<Longrightarrow> rotate_90_clockwise (grid h w f) = grid w h (\<lambda>i j. f (h - 1 - j) i)"
  by (simp add: rotate_90_clockwise_def shape2_grid) (simp add: grid_def)

lemma array_grid:
  assumes "is_array img" "shape2 img = (h, w)"
  shows "img = grid h w (\<lambda>i j. img ! i ! j)"
proof -
  have h: "length img = h" using assms(2) by (simp add: shape2_def)
  have w: "\<And>r. r \<in> set img \<Longrightarrow> length r = w"
    using assms by (auto simp: is_array_def list_all_iff)
  have row: "map (\<lambda>j. img ! i ! j) [0..<w] = img ! i" if "i < h" for i
  proof -
    have "length (img ! i) = w" using that h w by simp
    then show ?thesis using map_nth[of "img ! i"] by simp
  qed
  have "map (\<lambda>i. map (\<lambda>j. img ! i ! j) [0..<w]) [0..<h] = map (\<lambda>i. img ! i) [0..<h]"
    by (rule map_cong) (simp_all add: row)
  also have "\<dots> = img" using map_nth[of img] h by simp
  finally show ?thesis by (simp add: grid_def)
qed

lemma rotate4_grid:
  assumes "0 < h" "0 < w"
  shows "(rotate_90_clockwise ^^ 4) (grid h w f) = grid h w f"
proof -
  have "(rotate_90_clockwise ^^ 4) (grid h w f) =
        rotate_90_clockwise (rotate_90_clockwise (rotate_90_clockwise (rotate_90_clockwise (grid h w f))))"
    by (simp add: eval_nat_numeral)
  also have "\<dots> = grid h w (\<lambda>i j. f (h - 1 - (h - 1 - i)) (w - 1 - (w - 1 - j)))"
    using assms by (simp add: rotate_grid)
  also have "\<dots> = grid h w f"
    by (rule grid_cong) simp
  finally show ?thesis .
qed

lemma rotate4:
  assumes "is_array img"
  shows "(rotate_90_clockwise ^^ 4) img = img"
proof -
  obtain h w where s: "shape2 img = (h, w)" by (cases "shape2 img")
  have pos: "0 < h" "0 < w" using assms s by (auto simp: is_array_def)
  show ?thesis
    using rotate4_grid[OF pos, of "\<lambda>i j. img ! i ! j"]
    unfolding array_grid[OF assms s, symmetric] .
qed

section \<open>The laboratory, evaluated\<close>

lemma lab_sel:
  "haarcascades (lab det) = ''/cv2/data/''"
  "abspath (lab det) p = ''/scans/'' @ p"
  "isfile (lab det) p = (p = ''photo.png'' \<or> p = ''strip.png'')"
  "imread (lab det) p = (if p = ''/scans/photo.png'' then Some photo
                          else if p = ''/scans/strip.png'' then Some strip else None)"
  "resize_INTER_CUBIC (lab det) = nearest"
  "GaussianBlur (lab det) = (\<lambda>img ksize sigma. img)"
  "mean0 (lab det) = first_channel_mean"
  "detectMultiScale (lab det) = det"
  by (simp_all add: lab_def)

lemma lab_photo: "imread (lab det) (abspath (lab det) (last argv0)) = Some photo" "argv0 \<noteq> []"
  by (simp_all add: lab_sel argv0_def)

lemma lab_strip: "imread (lab det) (abspath (lab det) (last argv1)) = Some strip" "argv1 \<noteq> []"
  by (simp_all add: lab_sel argv1_def)


lemma scale_vals:
  "nat (min 255 (py_round (5 / 4 * real 0 + 0))) = 0"
  "nat (min 255 (py_round (5 / 4 * real 200 + 0))) = 250"
  "nat (min 255 (py_round (5 / 4 * real 255 + 0))) = 255"
  by (simp_all add: py_round_def Let_def)

lemma lab_convert:
  "convertScaleAbs (lab det) photo (5 / 4) 0 = [[[0, 0, 0], [250, 0, 0]], [[0, 255, 255], [250, 0, 0]]]"
  unfolding lab_def photo_def
  by (simp only: extern.simps list.map scale_vals)

lemma lab_gray:
  "cvtColor_BGR2GRAY (lab det) [[[0, 0, 0], [250, 0, 0]], [[0, 255, 255], [250, 0, 0]]] =
     [[[0], [29]], [[226], [29]]]"
  unfolding lab_def by simp

lemma lab_preprocess: "preprocess (lab det) photo = gray_photo"
  unfolding preprocess_def Let_def lab_convert lab_gray gray_photo_def by (simp add: lab_def)

lemma lab_convert_strip:
  "convertScaleAbs (lab det) strip (5 / 4) 0 = [[[0, 0, 0], [250, 0, 0]]]"
  unfolding lab_def strip_def
  by (simp only: extern.simps list.map scale_vals)

lemma lab_gray_strip:
  "cvtColor_BGR2GRAY (lab det) [[[0, 0, 0], [250, 0, 0]]] = [[[0], [29]]]"
  unfolding lab_def by simp

lemma lab_preprocess_strip: "preprocess (lab det) strip = gray_strip"
  unfolding preprocess_def Let_def lab_convert_strip lab_gray_strip gray_strip_def
  by (simp add: lab_def)

lemma lab_shapes:
  "shape2 gray_photo = (2, 2)" "shape2 photo = (2, 2)" "shape2 flat = (2, 2)"
  "shape2 gray_strip = (1, 2)" "shape2 strip = (1, 2)"
  by (simp_all add: shape2_def gray_photo_def photo_def flat_def gray_strip_def strip_def)

lemma lab_arrays:
  "is_array gray_photo" "is_array photo" "is_array flat" "is_array gray_strip" "is_array strip"
  by (simp_all add: is_array_def lab_shapes)
     (simp_all add: gray_photo_def photo_def flat_def gray_strip_def strip_def channels_def)

lemma lab_sizeable: "sizeable gray_photo" "sizeable photo" "sizeable flat"
  by (simp_all add: sizeable_def lab_arrays lab_shapes)

lemma lab_scaled:
  "scaled (lab det) gray_photo 2 = [[[0]]]"
  "scaled (lab det) gray_photo (Suc 0) = gray_photo"
  by (simp_all add: scaled_def lab_sel gray_photo_def shape2_def nearest_def py_round_def Let_def upt_conv_Cons)

lemma attempt_frame: "frame (attempt img cc biggest k) = (rotate_90_clockwise ^^ k) img"
  by (simp add: attempt_def faces_call_def)

lemma turns_pixel: "rotate_90_clockwise [[p]] = [[p]]"
  by (simp add: rotate_90_clockwise_def shape2_def)

lemma turns_gray:
  "rotate_90_clockwise gray_photo = [[[226], [0]], [[29], [29]]]"
  by (simp add: rotate_90_clockwise_def shape2_def gray_photo_def upt_conv_Cons)

lemma quarter_turns:
  "(f ^^ 1) x = f x" "(f ^^ 2) x = f (f x)" "(f ^^ 3) x = f (f (f x))"
  by (simp_all add: eval_nat_numeral)

lemma turns_gray2:
  "rotate_90_clockwise [[[226], [0]], [[29], [29]]] = [[[29], [226]], [[29], [0]]]"
  by (simp add: rotate_90_clockwise_def shape2_def upt_conv_Cons)

lemma face_in_iff:
  "face_in t (attempt img cc biggest k) \<noteq> [] \<longleftrightarrow> (rotate_90_clockwise ^^ k) img = t"
  by (simp add: face_in_def attempt_frame)

lemma lab_half:
  "run_search (lab (face_in [[[226], [0]], [[29], [29]]])) gray_photo True (c, 2) =
     (PyBool False, map (attempt [[[0]]] (''/cv2/data/'' @ c) True) [0, 1, 2, 3])"
  by (simp add: run_search_def detect_faces_unfold lab_sel lab_scaled face_in_iff quarter_turns
        turns_pixel path_join_def Let_def)

lemma lab_full:
  "run_search (lab (face_in [[[226], [0]], [[29], [29]]])) gray_photo True (c, Suc 0) =
     (PyInt 90, map (attempt gray_photo (''/cv2/data/'' @ c) True) [0, 1])"
  by (simp add: run_search_def detect_faces_unfold lab_sel lab_scaled face_in_iff quarter_turns
        turns_gray path_join_def Let_def)
     (simp add: gray_photo_def)

lemma py_round_thirds: "py_round (2 / 3) = 1" "py_round (4 / 3) = 1"
  by (simp_all add: py_round_def Let_def)

lemma lab_bands_gray:
  "band gray_photo Top = [[[0], [29]]]"
  "band gray_photo Left = [[[0]], [[226]]]"
  "band gray_photo Bottom = [[[226], [29]]]"
  "band gray_photo Right = [[[29]], [[29]]]"
  by (simp_all add: band_def chunks_of_def gray_photo_def shape2_def Let_def slice_def py_round_thirds)

lemma lab_bands_photo:
  "band photo Top = [[[0, 0, 0], [200, 0, 0]]]"
  "band photo Left = [[[0, 0, 0]], [[0, 255, 255]]]"
  "band photo Bottom = [[[0, 255, 255], [200, 0, 0]]]"
  "band photo Right = [[[200, 0, 0]], [[200, 0, 0]]]"
  by (simp_all add: band_def chunks_of_def photo_def shape2_def Let_def slice_def py_round_thirds)

lemma lab_brightness:
  "brightness (lab det) img p = first_channel_mean (nearest (band img p) (5, 5))"
  by (simp add: brightness_def lab_sel)

lemma upt5: "[0..<5] = [0, 1, 2, 3, 4]"
  by (simp add: upt_conv_Cons)

lemma nearest_wide: "nearest [[p, q]] (5, 5) = [[p, p, p, q, q], [p, p, p, q, q], [p, p, p, q, q], [p, p, p, q, q], [p, p, p, q, q]]"
  by (simp add: nearest_def shape2_def upt5)

lemma nearest_tall: "nearest [[p], [q]] (5, 5) = [[p, p, p, p, p], [p, p, p, p, p], [p, p, p, p, p], [q, q, q, q, q], [q, q, q, q, q]]"
  by (simp add: nearest_def shape2_def upt5)

lemma lab_brightness_gray:
  "brightness (lab det) gray_photo Top = 58 / 5"
  "brightness (lab det) gray_photo Left = 452 / 5"
  "brightness (lab det) gray_photo Bottom = 736 / 5"
  "brightness (lab det) gray_photo Right = 29"
  by (simp_all add: lab_brightness lab_bands_gray nearest_wide nearest_tall
        first_channel_mean_def)

lemma lab_brightness_photo:
  "brightness (lab det) photo Top = 80"
  "brightness (lab det) photo Left = 0"
  "brightness (lab det) photo Bottom = 80"
  "brightness (lab det) photo Right = 200"
  by (simp_all add: lab_brightness lab_bands_photo nearest_wide nearest_tall
        first_channel_mean_def)

lemma lab_brightest_gray: "detect_brightest_side (lab det) gray_photo = Inr 180"
  by (simp add: detect_brightest_side_cases[OF lab_sizeable(1)] Let_def lab_brightness_gray)

lemma lab_brightest_photo: "detect_brightest_side (lab det) photo = Inr 270"
  by (simp add: detect_brightest_side_cases[OF lab_sizeable(2)] Let_def lab_brightness_photo)

lemma lab_no_faces:
  "list_all (\<lambda>c. detectMultiScale (lab no_faces) c = []) cs"
  by (simp add: lab_sel no_faces_def list_all_iff)

lemma lab_bands_flat:
  "band flat Top = [[[7], [7]]]"
  "band flat Left = [[[7]], [[7]]]"
  "band flat Bottom = [[[7], [7]]]"
  "band flat Right = [[[7]], [[7]]]"
  by (simp_all add: band_def chunks_of_def flat_def shape2_def Let_def slice_def py_round_thirds)

lemma lab_brightness_flat: "brightness (lab det) flat q = 7"
  by (cases q)
     (simp_all add: lab_brightness lab_bands_flat nearest_wide nearest_tall first_channel_mean_def)

lemma lab_bands_strip: "band gray_strip Top = []"
  by (simp add: band_def chunks_of_def gray_strip_def shape2_def Let_def slice_def py_round_def)

lemma lab_brightest_strip: "detect_brightest_side (lab det) gray_strip = Inl Cv2Error"
  by (rule detect_brightest_side_refused[of _ 0 0]) (simp_all add: lab_bands_strip shape2_def)

section \<open>The claims\<close>

text \<open>
  C1.  For every image and every detector profile, \<^verbatim>\<open>detect_faces\<close> tries the rotation
  offsets 0, 1, 2, 3 in this order.  Each attempt is one detector call, on the image turned
  90 degrees clockwise once more than in the attempt before.  At the first offset whose
  call returns a detection the function returns that offset times 90, having made the
  calls up to that offset and no other; when none of the four calls returns a detection
  it returns \<^verbatim>\<open>False\<close>, no result, after exactly these four calls.
\<close>

theorem detect_faces_rotation_search:
  "detect_faces env img cc biggest =
     (case find (\<lambda>k. detectMultiScale env (attempt img cc biggest k) \<noteq> []) [0, 1, 2, 3] of
        Some k \<Rightarrow> (PyInt (int k * 90), map (attempt img cc biggest) [0..<Suc k])
      | None \<Rightarrow> (PyBool False, map (attempt img cc biggest) [0, 1, 2, 3]))"
  unfolding detect_faces_def Let_def detect_faces_loop_unfold attempt_def
  by (simp add: upt_rec eval_nat_numeral)

text \<open>
  C2.  On a detection copy that \<^verbatim>\<open>cv2.resize\<close> accepts at both scales (at least two rows and
  two columns), \<^verbatim>\<open>try_detect\<close> goes through the four cascades in the order profile face,
  full body, frontal face (alt), frontal face (default).  For each it runs two rotation
  searches, the first on the image resized with scale counter 2 (to \<open>round(h/2)\<close> rows and
  \<open>round(w/2)\<close> columns), the second with counter 1.  The first search that reports a result
  ends the whole function with that result: the trace holds the detector calls of the
  searches up to that one and of no later scale or profile.
\<close>

theorem try_detect_profile_order:
  assumes "argv \<noteq> []" and "imread env (abspath env (last argv)) = Some loaded"
    and "sizeable (preprocess env loaded)"
  shows "let img = preprocess env loaded;
             searches = map (run_search env img biggest)
               [(''haarcascade_profileface.xml'', 2), (''haarcascade_profileface.xml'', 1),
                (''haarcascade_fullbody.xml'', 2), (''haarcascade_fullbody.xml'', 1),
                (''haarcascade_frontalface_alt.xml'', 2), (''haarcascade_frontalface_alt.xml'', 1),
                (''haarcascade_frontalface_default.xml'', 2), (''haarcascade_frontalface_default.xml'', 1)]
         in (case first_result searches of
               (r, calls) \<Rightarrow> cascade_loop env img biggest CASCADES_TO_USE = (Inr r, calls)) \<and>
            (case first_result searches of
               (Some r, calls) \<Rightarrow>
                 try_detect env argv biggest = (Inr r, Imread (abspath env (last argv)) # map Detect calls)
             | (None, calls) \<Rightarrow>
                 snd (try_detect env argv biggest) = Imread (abspath env (last argv)) # map Detect calls)"
proof -
  define img where "img = preprocess env loaded"
  define searches where "searches = map (run_search env img biggest) search_order"
  have s: "sizeable img" using assms(3) by (simp add: img_def)
  obtain x calls where f: "first_result searches = (x, calls)"
    by (cases "first_result searches")
  have c: "cascade_loop env img biggest CASCADES_TO_USE = (Inr x, calls)"
    using f by (simp add: cascade_loop_search_order[OF s] searches_def)
  note t = try_detect_search_order[OF assms, of biggest, folded img_def, folded searches_def]
  have "(case first_result searches of
               (r, calls) \<Rightarrow> cascade_loop env img biggest CASCADES_TO_USE = (Inr r, calls)) \<and>
        (case first_result searches of
               (Some r, calls) \<Rightarrow>
                 try_detect env argv biggest = (Inr r, Imread (abspath env (last argv)) # map Detect calls)
             | (None, calls) \<Rightarrow>
                 snd (try_detect env argv biggest) = Imread (abspath env (last argv)) # map Detect calls)"
    unfolding t f using c by (cases x) simp_all
  then show ?thesis
    unfolding Let_def img_def[symmetric] searches_def search_order_eq .
qed

theorem try_detect_profile_order_witness:
  "fst (try_detect (lab (face_in [[[226], [0]], [[29], [29]]])) argv0 True) = Inr (PyInt 90) \<and>
   length (snd (try_detect (lab (face_in [[[226], [0]], [[29], [29]]])) argv0 True)) = 7"
proof -
  have s: "sizeable (preprocess (lab (face_in [[[226], [0]], [[29], [29]]])) photo)"
    by (simp add: lab_preprocess lab_sizeable)
  show ?thesis
    using try_detect_profile_order[OF lab_photo(2) lab_photo(1) s, of True]
    by (simp add: Let_def lab_preprocess lab_half lab_full)
qed

text \<open>
  C3 (as the code has it).  When every profile, scale and rotation yields no detection, the
  brightness fallback is invoked on the unrotated, full-resolution detection copy, that is
  on the contrast-scaled, grayscale, histogram-equalized image: \<^verbatim>\<open>try_detect\<close> assigns each
  preprocessing result to \<^verbatim>\<open>image\<close> again, and that variable is what it passes on.  The
  answer of the run is the fallback's answer on that copy.  (The copy has at least two rows
  and two columns: on a smaller one \<^verbatim>\<open>cv2.resize\<close> raises before any detector call.)
\<close>

theorem fallback_uses_detection_copy:
  assumes "argv \<noteq> []" and "imread env (abspath env (last argv)) = Some loaded"
    and "sizeable (preprocess env loaded)"
    and "list_all (\<lambda>c. detectMultiScale env c = []) (schedule env (preprocess env loaded) biggest)"
  shows "\<exists>n. detect_brightest_side env
               (equalizeHist env (cvtColor_BGR2GRAY env (convertScaleAbs env loaded (5 / 4) 0))) = Inr n \<and>
             fst (try_detect env argv biggest) = Inr (PyInt n)"
  using try_detect_exhausted[OF assms] unfolding preprocess_eq by auto

theorem fallback_uses_detection_copy_witness:
  "fst (try_detect (lab no_faces) argv0 True) = Inr (PyInt 180)"
proof -
  have s: "sizeable (preprocess (lab no_faces) photo)"
    by (simp add: lab_preprocess lab_sizeable)
  show ?thesis
    using fallback_uses_detection_copy[OF lab_photo(2) lab_photo(1) s, of True]
    unfolding preprocess_eq[symmetric] lab_preprocess
    by (simp add: lab_no_faces lab_brightest_gray)
qed

text \<open>
  C3 as claimed fails: on the laboratory photo, where no search finds anything, the run
  answers 180, the brightest side of the detection copy, while the brightness fallback on
  the original color image answers 270.
\<close>

theorem fallback_on_original_counterexample:
  "imread (lab no_faces) (abspath (lab no_faces) (last argv0)) = Some photo \<and>
   list_all (\<lambda>c. detectMultiScale (lab no_faces) c = [])
     (schedule (lab no_faces) (preprocess (lab no_faces) photo) True) \<and>
   fst (try_detect (lab no_faces) argv0 True) = Inr (PyInt 180) \<and>
   detect_brightest_side (lab no_faces) photo = Inr 270"
proof -
  have s: "sizeable (preprocess (lab no_faces) photo)"
    by (simp add: lab_preprocess lab_sizeable)
  show ?thesis
    using try_detect_exhausted[OF lab_photo(2) lab_photo(1) s, of True]
    by (simp add: lab_photo lab_no_faces lab_preprocess lab_brightest_gray lab_brightest_photo)
qed

text \<open>
  C5.  Once the image is loaded the search comes to an end, after at most
  profiles x 2 x 4 detector calls; the bound comes from the three fixed loop counts.  With a
  detector that always returns the empty sequence, on a detection copy with at least two
  rows and two columns, the search reports no result after exactly 4 x 2 x 4 = 32 calls,
  and the answer of the run is the one the brightness fallback computes.
\<close>

theorem search_bounded_and_exhaustion:
  assumes "argv \<noteq> []" and "imread env (abspath env (last argv)) = Some loaded"
  shows "(\<exists>r calls. try_detect env argv biggest =
                      (r, Imread (abspath env (last argv)) # map Detect calls) \<and>
                    length calls \<le> length CASCADES_TO_USE * 2 * rotation_maximum) \<and>
         (sizeable (preprocess env loaded) \<and> (\<forall>c. detectMultiScale env c = []) \<longrightarrow>
          (\<exists>calls n. cascade_loop env (preprocess env loaded) biggest CASCADES_TO_USE =
                        (Inr None, calls) \<and>
                      length calls = length CASCADES_TO_USE * 2 * rotation_maximum \<and>
                      length calls = 32 \<and>
                      detect_brightest_side env (preprocess env loaded) = Inr n \<and>
                      try_detect env argv biggest =
                        (Inr (PyInt n), Imread (abspath env (last argv)) # map Detect calls)))"
proof (rule conjI)
  have e: "length CASCADES_TO_USE * 2 * rotation_maximum = 32"
    by (simp add: CASCADES_TO_USE_def rotation_maximum_def)
  show "\<exists>r calls. try_detect env argv biggest =
                      (r, Imread (abspath env (last argv)) # map Detect calls) \<and>
                    length calls \<le> length CASCADES_TO_USE * 2 * rotation_maximum"
    unfolding e by (rule try_detect_returns[OF assms])
next
  show "sizeable (preprocess env loaded) \<and> (\<forall>c. detectMultiScale env c = []) \<longrightarrow>
          (\<exists>calls n. cascade_loop env (preprocess env loaded) biggest CASCADES_TO_USE =
                        (Inr None, calls) \<and>
                      length calls = length CASCADES_TO_USE * 2 * rotation_maximum \<and>
                      length calls = 32 \<and>
                      detect_brightest_side env (preprocess env loaded) = Inr n \<and>
                      try_detect env argv biggest =
                        (Inr (PyInt n), Imread (abspath env (last argv)) # map Detect calls))"
  proof
    assume a: "sizeable (preprocess env loaded) \<and> (\<forall>c. detectMultiScale env c = [])"
    then have s: "sizeable (preprocess env loaded)" by simp
    from a have "list_all (\<lambda>c. detectMultiScale env c = []) (schedule env (preprocess env loaded) biggest)"
      by (simp add: list_all_iff)
    from try_detect_exhausted[OF assms s this] obtain n where
      "detect_brightest_side env (preprocess env loaded) = Inr n"
      "cascade_loop env (preprocess env loaded) biggest CASCADES_TO_USE =
             (Inr None, schedule env (preprocess env loaded) biggest)"
      "try_detect env argv biggest =
             (Inr (PyInt n),
              Imread (abspath env (last argv)) # map Detect (schedule env (preprocess env loaded) biggest))"
      by blast
    then show "\<exists>calls n. cascade_loop env (preprocess env loaded) biggest CASCADES_TO_USE =
                        (Inr None, calls) \<and>
                      length calls = length CASCADES_TO_USE * 2 * rotation_maximum \<and>
                      length calls = 32 \<and>
                      detect_brightest_side env (preprocess env loaded) = Inr n \<and>
                      try_detect env argv biggest =
                        (Inr (PyInt n), Imread (abspath env (last argv)) # map Detect calls)"
      by (simp add: length_schedule CASCADES_TO_USE_def rotation_maximum_def)
  qed
qed

theorem search_bounded_and_exhaustion_witness:
  "\<exists>calls. cascade_loop (lab no_faces) gray_photo True CASCADES_TO_USE = (Inr None, calls) \<and>
           length calls = 32 \<and>
           try_detect (lab no_faces) argv0 True =
             (Inr (PyInt 180), Imread ''/scans/photo.png'' # map Detect calls)"
  using search_bounded_and_exhaustion[OF lab_photo(2) lab_photo(1), of no_faces True]
  by (auto simp: lab_sel no_faces_def lab_preprocess lab_sizeable lab_brightest_gray argv0_def)

text \<open>
  C7 (as the code has it).  For every input that names an existing file which decodes to an
  image whose detection copy has at least two rows and two columns, the script prints
  exactly one integer, one of 0, 90, 180 and 270, and ends with status 0: the search
  returns a rotation or hands over to the brightness fallback, which on such an image
  returns one of the four values of its table, so \<^verbatim>\<open>try_detect\<close> never returns \<^verbatim>\<open>False\<close>.
\<close>

theorem answer_is_a_quarter_turn:
  assumes "length argv = 2" and "isfile env (last argv)"
    and "imread env (abspath env (last argv)) = Some loaded"
    and "sizeable (preprocess env loaded)"
  shows "\<exists>n. n \<in> {0, 90, 180, 270} \<and>
             fst (try_detect env argv True) = Inr (PyInt n) \<and>
             stdout (main env argv) = [str_int n] \<and>
             stdout (main env argv) \<in> {[''0''], [''90''], [''180''], [''270'']} \<and>
             exit_status (main env argv) = 0"
proof -
  have ne: "argv \<noteq> []" using assms(1) by auto
  obtain n where n: "n \<in> {0, 90, 180, 270}" "fst (try_detect env argv True) = Inr (PyInt n)"
    using try_detect_answer[OF ne assms(3,4)] by blast
  obtain tr where t: "try_detect env argv True = (Inr (PyInt n), tr)"
    using n(2) by (cases "try_detect env argv True") simp
  have m: "main env argv = \<lparr>stdout = [str_int n], exit_status = 0, trace = tr\<rparr>"
    by (simp add: main_valid[OF assms(1,2)] t)
  have "str_int n \<in> {''0'', ''90'', ''180'', ''270''}"
    using n(1) str_int_values by auto
  then show ?thesis
    using n by (auto simp: m)
qed

theorem answer_is_a_quarter_turn_witness:
  "stdout (main (lab no_faces) argv0) = [''180''] \<and> exit_status (main (lab no_faces) argv0) = 0"
proof -
  have a: "length argv0 = 2" "isfile (lab no_faces) (last argv0)"
    by (simp_all add: argv0_def lab_sel)
  have s: "sizeable (preprocess (lab no_faces) photo)"
    by (simp add: lab_preprocess lab_sizeable)
  have t: "fst (try_detect (lab no_faces) argv0 True) = Inr (PyInt 180)"
    using try_detect_exhausted[OF lab_photo(2) lab_photo(1) s, of True]
    by (simp add: lab_no_faces lab_preprocess lab_brightest_gray)
  show ?thesis
    using answer_is_a_quarter_turn[OF a lab_photo(1) s] by (auto simp: t str_int_values)
qed

text \<open>
  C7 as claimed fails: \<^verbatim>\<open>strip.png\<close> is an existing file that decodes to an image of one row
  and two columns.  At scale counter 2 the wanted height is \<open>round(1/2) = 0\<close>, \<^verbatim>\<open>cv2.resize\<close>
  raises, nobody catches the exception: nothing is printed and the status is 1.
\<close>

theorem answer_is_a_quarter_turn_counterexample:
  "length argv1 = 2 \<and> isfile (lab no_faces) (last argv1) \<and>
   imread (lab no_faces) (abspath (lab no_faces) (last argv1)) = Some strip \<and>
   is_array strip \<and> shape2 strip = (1, 2) \<and>
   shape2 (preprocess (lab no_faces) strip) = (1, 2) \<and>
   py_round (1 / 2) = 0 \<and>
   main (lab no_faces) argv1 = \<lparr>stdout = [], exit_status = 1, trace = [Imread ''/scans/strip.png'']\<rparr>"
proof -
  have a: "length argv1 = 2" "isfile (lab no_faces) (last argv1)"
    by (simp_all add: argv1_def lab_sel)
  have sh: "shape2 (preprocess (lab no_faces) strip) = (1, 2)"
    by (simp add: lab_preprocess_strip lab_shapes)
  have t: "try_detect (lab no_faces) argv1 True =
             (Inl Cv2Error, [Imread (abspath (lab no_faces) (last argv1))])"
    by (rule try_detect_refused[OF lab_strip(2) lab_strip(1) sh]) simp
  have m: "main (lab no_faces) argv1 = \<lparr>stdout = [], exit_status = 1, trace = [Imread ''/scans/strip.png'']\<rparr>"
    by (simp add: main_valid[OF a] t) (simp add: lab_sel argv1_def)
  have r: "py_round (1 / 2) = 0"
    by (simp add: py_round_def Let_def)
  show ?thesis
    using a lab_strip(1) lab_arrays(5) lab_shapes(5) sh r m by simp
qed

lemma detect_faces_sentinel:
  "(fst (detect_faces env img cc biggest) = PyBool False) =
     list_all (\<lambda>k. detectMultiScale env (attempt img cc biggest k) = []) [0, 1, 2, 3]"
  by (simp add: detect_faces_unfold Let_def)

lemma run_search_at_once:
  assumes "detectMultiScale env
             (attempt (scaled env img (snd p)) (path_join (haarcascades env) (fst p)) biggest 0) \<noteq> []"
  shows "run_search env img biggest p =
           (PyInt 0, [attempt (scaled env img (snd p)) (path_join (haarcascades env) (fst p)) biggest 0])"
  using assms by (cases p) (simp add: run_search_def detect_faces_at_once)

lemma searches_first_at_once:
  assumes "n < length ps"
    and "list_all (\<lambda>p. fst (run_search env img biggest p) = PyBool False) (take n ps)"
    and "detectMultiScale env
           (attempt (scaled env img (snd (ps ! n))) (path_join (haarcascades env) (fst (ps ! n))) biggest 0) \<noteq> []"
  shows "fst (first_result (map (run_search env img biggest) ps)) = Some (PyInt 0)"
proof -
  have ps: "ps = take n ps @ ps ! n # drop (Suc n) ps"
    using assms(1) by (rule id_take_nth_drop)
  have skip: "list_all (\<lambda>r. fst r = PyBool False) (map (run_search env img biggest) (take n ps))"
    using assms(2) by (simp add: list_all_iff)
  have "first_result (map (run_search env img biggest) (take n ps @ ps ! n # drop (Suc n) ps)) =
          (Some (PyInt 0),
           concat (map snd (map (run_search env img biggest) (take n ps))) @
           [attempt (scaled env img (snd (ps ! n))) (path_join (haarcascades env) (fst (ps ! n))) biggest 0])"
    using first_result_skip[OF skip, of "PyInt 0"] run_search_at_once[OF assms(3)]
    by simp
  then show ?thesis
    using ps by simp
qed

text \<open>
  C9.  \<^verbatim>\<open>detect_faces\<close> returns \<^verbatim>\<open>False\<close> exactly when none of its four attempts detects
  anything; a detection at offset 0 makes it return the integer 0, which is not that
  object although it compares equal to it.  \<^verbatim>\<open>try_detect\<close> tests with \<^verbatim>\<open>is not False\<close>, so
  when the first search that finds something finds it at offset 0, the run answers 0 and
  prints it; the brightness fallback is not consulted.  (The detection copy has at least
  two rows and two columns, so that the searches take place.)
\<close>

theorem zero_is_not_the_sentinel:
  assumes "length argv = 2" and "isfile env (last argv)"
    and "imread env (abspath env (last argv)) = Some loaded"
    and "sizeable (preprocess env loaded)"
    and "n < length search_order"
    and "list_all (\<lambda>p. fst (run_search env (preprocess env loaded) True p) = PyBool False)
           (take n search_order)"
    and "detectMultiScale env
           (attempt (scaled env (preprocess env loaded) (snd (search_order ! n)))
              (path_join (haarcascades env) (fst (search_order ! n))) True 0) \<noteq> []"
  shows "(fst (detect_faces env img cc biggest) = PyBool False) =
           list_all (\<lambda>k. detectMultiScale env (attempt img cc biggest k) = []) [0, 1, 2, 3] \<and>
         fst (run_search env (preprocess env loaded) True (search_order ! n)) = PyInt 0 \<and>
         PyInt 0 \<noteq> PyBool False \<and> is_not_False (PyInt 0) \<and> py_eq (PyInt 0) (PyBool False) \<and>
         fst (try_detect env argv True) = Inr (PyInt 0) \<and>
         stdout (main env argv) = [''0'']"
proof -
  have ne: "argv \<noteq> []" using assms(1) by auto
  have r: "fst (run_search env (preprocess env loaded) True (search_order ! n)) = PyInt 0"
    using run_search_at_once[OF assms(7)] by simp
  obtain calls where f:
    "first_result (map (run_search env (preprocess env loaded) True) search_order) = (Some (PyInt 0), calls)"
    using searches_first_at_once[OF assms(5,6,7)]
    by (cases "first_result (map (run_search env (preprocess env loaded) True) search_order)") simp
  have t: "try_detect env argv True = (Inr (PyInt 0), Imread (abspath env (last argv)) # map Detect calls)"
    by (simp add: try_detect_search_order[OF ne assms(3,4)] f)
  have m: "stdout (main env argv) = [''0'']"
    by (simp add: main_valid[OF assms(1,2)] t str_int_values)
  show ?thesis
    using r t m detect_faces_sentinel[of env img cc biggest] by (simp add: is_not_False_def)
qed

theorem zero_is_not_the_sentinel_witness:
  "stdout (main (lab always_face) argv0) = [''0''] \<and>
   detect_brightest_side (lab always_face) (preprocess (lab always_face) photo) = Inr 180"
proof -
  have a: "length argv0 = 2" "isfile (lab always_face) (last argv0)"
    by (simp_all add: argv0_def lab_sel)
  have s: "sizeable (preprocess (lab always_face) photo)"
    by (simp add: lab_preprocess lab_sizeable)
  have n: "0 < length search_order"
    by (simp add: search_order_eq)
  have e: "list_all (\<lambda>p. fst (run_search (lab always_face) (preprocess (lab always_face) photo) True p) = PyBool False)
             (take 0 search_order)"
    by simp
  have d: "detectMultiScale (lab always_face)
           (attempt (scaled (lab always_face) (preprocess (lab always_face) photo) (snd (search_order ! 0)))
              (path_join (haarcascades (lab always_face)) (fst (search_order ! 0))) True 0) \<noteq> []"
    by (simp add: lab_sel always_face_def)
  show ?thesis
    using zero_is_not_the_sentinel[OF a lab_photo(1) s n e d]
    by (simp add: lab_preprocess lab_brightest_gray)
qed

text \<open>
  C10.  Called with an argument list that is not the script name and one file name, the
  script prints the usage line and exits with a status that is not 0; called with a path
  that is not an existing file, it prints that the file was not found and exits likewise.
  In both cases nothing of the search runs: the trace is empty.  Otherwise
  \<^verbatim>\<open>try_detect\<close> runs: the trace is its trace, and begins with the reading of the image.
\<close>

theorem usage_and_missing_file:
  "(length argv \<noteq> 2 \<longrightarrow>
      main env argv = \<lparr>stdout = [''USAGE: whatsup filename''], exit_status = 255, trace = []\<rparr>) \<and>
   (length argv = 2 \<and> \<not> isfile env (last argv) \<longrightarrow>
      main env argv =
        \<lparr>stdout = [''File '' @ [CHR 0x27] @ last argv @ [CHR 0x27] @ '' not found.''],
         exit_status = 255, trace = []\<rparr>) \<and>
   (length argv = 2 \<and> isfile env (last argv) \<longrightarrow>
      trace (main env argv) = snd (try_detect env argv True) \<and>
      (\<exists>rest. trace (main env argv) = Imread (abspath env (last argv)) # rest))"
proof (intro conjI impI)
  assume "length argv \<noteq> 2"
  then show "main env argv = \<lparr>stdout = [''USAGE: whatsup filename''], exit_status = 255, trace = []\<rparr>"
    by (simp add: main_def sys_exit_def)
next
  assume "length argv = 2 \<and> \<not> isfile env (last argv)"
  then show "main env argv =
        \<lparr>stdout = [''File '' @ [CHR 0x27] @ last argv @ [CHR 0x27] @ '' not found.''],
         exit_status = 255, trace = []\<rparr>"
    by (simp add: main_def sys_exit_def)
next
  assume a: "length argv = 2 \<and> isfile env (last argv)"
  then have ne: "argv \<noteq> []" by auto
  show t: "trace (main env argv) = snd (try_detect env argv True)"
    using a by (simp add: main_def split: prod.splits sum.splits)
  show "\<exists>rest. trace (main env argv) = Imread (abspath env (last argv)) # rest"
    unfolding t using ne
    by (simp add: try_detect_def Let_def split: option.splits prod.splits sum.splits)
qed

theorem usage_and_missing_file_witness:
  "main (lab no_faces) [''whatsup.py''] =
     \<lparr>stdout = [''USAGE: whatsup filename''], exit_status = 255, trace = []\<rparr> \<and>
   main (lab no_faces) [''whatsup.py'', ''a.png'', ''b.png''] =
     \<lparr>stdout = [''USAGE: whatsup filename''], exit_status = 255, trace = []\<rparr> \<and>
   main (lab no_faces) [''whatsup.py'', ''lost.png''] =
     \<lparr>stdout = [''File '' @ [CHR 0x27] @ ''lost.png'' @ [CHR 0x27] @ '' not found.''],
      exit_status = 255, trace = []\<rparr> \<and>
   (\<exists>rest. trace (main (lab no_faces) argv0) = Imread ''/scans/photo.png'' # rest)"
proof -
  have i: "length argv0 = 2 \<and> isfile (lab no_faces) (last argv0)"
    by (simp add: argv0_def lab_sel)
  have "\<exists>rest. trace (main (lab no_faces) argv0) =
          Imread (abspath (lab no_faces) (last argv0)) # rest"
    using usage_and_missing_file[of argv0 "lab no_faces"] i by blast
  then have "\<exists>rest. trace (main (lab no_faces) argv0) = Imread ''/scans/photo.png'' # rest"
    by (simp add: lab_sel argv0_def)
  then show ?thesis
    using usage_and_missing_file[of "[''whatsup.py'']" "lab no_faces"]
      usage_and_missing_file[of "[''whatsup.py'', ''a.png'', ''b.png'']" "lab no_faces"]
      usage_and_missing_file[of "[''whatsup.py'', ''lost.png'']" "lab no_faces"]
    by (simp add: lab_sel)
qed

lemma all_position: "(\<forall>q. P q) = (P Top \<and> P Left \<and> P Bottom \<and> P Right)"
  by (metis position.exhaust)

lemma max_loop_first_maximum:
  fixes b :: "position \<Rightarrow> real"
  defines "p \<equiv> max_loop Top (b Top) [(Left, b Left), (Bottom, b Bottom), (Right, b Right)]"
  shows "(\<forall>q. b q \<le> b p) \<and> (\<forall>q. table_order q < table_order p \<longrightarrow> b q < b p)"
  unfolding p_def all_position by auto

text \<open>
  C8.  \<^verbatim>\<open>detect_brightest_side\<close> is a function of the four band means: on an image whose bands
  can be sampled (at least two rows and two columns) it returns the rotation of the first
  band, in the order top, left, bottom, right, whose mean is the maximum, so a later band
  wins only when it is strictly brighter than every band before it.  When the four means
  are equal the answer is 0, whenever the function is run.
\<close>

theorem brightest_side_tie_break:
  assumes "sizeable img"
  shows "(\<exists>p. detect_brightest_side env img = Inr (rotation_map p) \<and>
            (\<forall>q. brightness env img q \<le> brightness env img p) \<and>
            (\<forall>q. table_order q < table_order p \<longrightarrow> brightness env img q < brightness env img p)) \<and>
         ((\<forall>q. brightness env img q = brightness env img Top) \<longrightarrow>
            detect_brightest_side env img = Inr 0)"
proof
  show "\<exists>p. detect_brightest_side env img = Inr (rotation_map p) \<and>
        (\<forall>q. brightness env img q \<le> brightness env img p) \<and>
        (\<forall>q. table_order q < table_order p \<longrightarrow> brightness env img q < brightness env img p)"
    unfolding detect_brightest_side_unfold[OF assms]
    using max_loop_first_maximum[of "brightness env img"] by blast
  show "(\<forall>q. brightness env img q = brightness env img Top) \<longrightarrow> detect_brightest_side env img = Inr 0"
  proof
    assume "\<forall>q. brightness env img q = brightness env img Top"
    then have "brightness env img Left = brightness env img Top"
      "brightness env img Bottom = brightness env img Top"
      "brightness env img Right = brightness env img Top"
      by simp_all
    then show "detect_brightest_side env img = Inr 0"
      by (simp add: detect_brightest_side_cases[OF assms] Let_def)
  qed
qed

theorem brightest_side_tie_break_witness:
  "detect_brightest_side (lab no_faces) flat = Inr 0"
  using brightest_side_tie_break[OF lab_sizeable(3), of "lab no_faces"]
  by (simp add: lab_brightness_flat)

lemma upt4: "[0..<4] = [0, 1, 2, 3]"
  by (simp add: upt_conv_Cons)

lemma quad_facts: "is_array quad" "shape2 quad = (4, 4)" "length quad = 4"
  by (simp_all add: is_array_def shape2_def quad_def channels_def)

lemma quad_bands:
  "band quad Top = [[[1], [2], [3], [4]]]"
  "band quad Bottom = [[[13], [14], [15], [16]]]"
  by (simp_all add: bands_of_array[OF quad_facts(1,2)]) (simp_all add: quad_def)

lemma quad_rows_claimed:
  "rows_in quad 0 (real 4 / real 3) = [[[1], [2], [3], [4]], [[5], [6], [7], [8]]]"
  "rows_in quad (real ((3 - 1) * 4 div 3)) (real 4) =
     [[[9], [10], [11], [12]], [[13], [14], [15], [16]]]"
  by (simp_all add: rows_in_def quad_facts(3) upt4) (simp_all add: quad_def)

text \<open>
  C4 (as the code has it).  For every image of at least two rows and two columns,
  \<^verbatim>\<open>detect_brightest_side\<close> cuts four overlapping bands with ratio 3 whose bounds are
  rounded to the nearest integer: top is the rows \<open>[0, round(h/3))\<close>, left the columns
  \<open>[0, round(w/3))\<close>, bottom the rows \<open>[round(2h/3), h)\<close>, right the columns
  \<open>[round(2w/3), w)\<close>, each over the full other side, where \<open>round(h/3) = (h + 1) div 3\<close> and
  \<open>round(2h/3) = (2h + 1) div 3\<close>.  Each band is resized to 5 x 5, blurred with a 5 x 5
  kernel and averaged; the band of maximal mean is selected and its rotation is returned
  by the table top 0, left 90, bottom 180, right 270.
\<close>

theorem brightest_side_bands:
  assumes "is_array img" and "shape2 img = (h, w)" and "2 \<le> h" and "2 \<le> w"
  shows "chunks_of img = [(Top, band img Top), (Left, band img Left), (Bottom, band img Bottom),
                          (Right, band img Right)] \<and>
         band img Top = take (nat (py_round (real h / 3))) img \<and>
         band img Left = map (take (nat (py_round (real w / 3)))) img \<and>
         band img Bottom = drop (nat (py_round (2 * (real h / 3)))) img \<and>
         band img Right = map (drop (nat (py_round (2 * (real w / 3))))) img \<and>
         nat (py_round (real h / 3)) = (h + 1) div 3 \<and>
         nat (py_round (2 * (real h / 3))) = (2 * h + 1) div 3 \<and>
         nat (py_round (real w / 3)) = (w + 1) div 3 \<and>
         nat (py_round (2 * (real w / 3))) = (2 * w + 1) div 3 \<and>
         (\<forall>p. sample env (band img p) =
                Inr (mean0 env (GaussianBlur env (resize_INTER_CUBIC env (band img p) (5, 5)) (5, 5)
                                  BORDER_DEFAULT)) \<and>
              brightness env img p =
                mean0 env (GaussianBlur env (resize_INTER_CUBIC env (band img p) (5, 5)) (5, 5)
                             BORDER_DEFAULT)) \<and>
         (\<exists>p. detect_brightest_side env img = Inr (rotation_map p) \<and>
              (\<forall>q. brightness env img q \<le> brightness env img p)) \<and>
         map rotation_map [Top, Left, Bottom, Right] = [0, 90, 180, 270]"
proof -
  have s: "sizeable img"
    using assms by (simp add: sizeable_def)
  note b = bands_of_array[OF assms(1,2)]
  have m: "\<exists>p. detect_brightest_side env img = Inr (rotation_map p) \<and>
              (\<forall>q. brightness env img q \<le> brightness env img p)"
    unfolding detect_brightest_side_unfold[OF s]
    using max_loop_first_maximum[of "brightness env img"] by blast
  have sm: "\<forall>p. sample env (band img p) =
                Inr (mean0 env (GaussianBlur env (resize_INTER_CUBIC env (band img p) (5, 5)) (5, 5)
                                  BORDER_DEFAULT)) \<and>
              brightness env img p =
                mean0 env (GaussianBlur env (resize_INTER_CUBIC env (band img p) (5, 5)) (5, 5)
                             BORDER_DEFAULT)"
    by (simp add: sample_band[OF s] brightness_def)
  have t: "band img Top = take (nat (py_round (real h / 3))) img"
    unfolding round_thirds_plain by (rule b(1))
  have l: "band img Left = map (take (nat (py_round (real w / 3)))) img"
    unfolding round_thirds_plain by (rule b(2))
  have bo: "band img Bottom = drop (nat (py_round (2 * (real h / 3)))) img"
    unfolding round_thirds_plain by (rule b(3))
  have r: "band img Right = map (drop (nat (py_round (2 * (real w / 3))))) img"
    unfolding round_thirds_plain by (rule b(4))
  have tab: "map rotation_map [Top, Left, Bottom, Right] = [0, 90, 180, 270]"
    by simp
  show ?thesis
    by (intro conjI chunks_bands t l bo r round_thirds_plain sm m tab)
qed

theorem brightest_side_bands_witness:
  "band quad Top = [[[1], [2], [3], [4]]] \<and>
   band quad Bottom = [[[13], [14], [15], [16]]] \<and>
   nat (py_round (real 4 / 3)) = 1 \<and> nat (py_round (2 * (real 4 / 3))) = 3"
proof -
  have "nat (py_round (real 4 / 3)) = 1" "nat (py_round (2 * (real 4 / 3))) = 3"
    using brightest_side_bands[OF quad_facts(1,2), of "lab no_faces"] by simp_all
  then show ?thesis by (simp add: quad_bands)
qed

text \<open>
  C4 as claimed fails on the 4 x 4 image with the pixels 1 to 16.  The claimed top band,
  the rows whose index lies in \<open>[0, 4/3)\<close>, is the rows 0 and 1; the code takes
  \<open>round(4/3) = 1\<close> row.  With the lower bound of the bottom band read as an integer
  quotient, \<open>(3 - 1) * 4 div 3 = 2\<close>, the claimed bottom band is the rows 2 and 3; the code
  takes row 3 only, \<open>round(8/3) = 3\<close>.  And not every image can be sampled: on one of a
  single row the top band is empty and \<^verbatim>\<open>cv2.resize\<close> raises.
\<close>

theorem brightest_side_bands_counterexample:
  "is_array quad \<and> shape2 quad = (4, 4) \<and>
   band quad Top = [[[1], [2], [3], [4]]] \<and>
   rows_in quad 0 (real 4 / real 3) = [[[1], [2], [3], [4]], [[5], [6], [7], [8]]] \<and>
   band quad Bottom = [[[13], [14], [15], [16]]] \<and>
   rows_in quad (real ((3 - 1) * 4 div 3)) (real 4) =
     [[[9], [10], [11], [12]], [[13], [14], [15], [16]]] \<and>
   is_array gray_strip \<and> shape2 gray_strip = (1, 2) \<and>
   detect_brightest_side (lab no_faces) gray_strip = Inl Cv2Error"
  by (intro conjI quad_facts(1,2) quad_bands quad_rows_claimed lab_arrays(4) lab_shapes(4)
        lab_brightest_strip)

lemma channels_grid: "0 < h \<Longrightarrow> 0 < w \<Longrightarrow> channels (grid h w f) = length (f 0 0)"
proof -
  assume h: "0 < h" and w: "0 < w"
  have "[0..<h] = 0 # [Suc 0..<h]" "[0..<w] = 0 # [Suc 0..<w]"
    using h w by (simp_all add: upt_conv_Cons)
  then show ?thesis by (simp add: channels_def grid_def)
qed

lemma is_array_grid:
  assumes "0 < h" and "0 < w" and "\<And>i j. i < h \<Longrightarrow> j < w \<Longrightarrow> length (f i j) = c"
  shows "is_array (grid h w f)" and "size_of (grid h w f) = h * w * c"
proof -
  have c: "channels (grid h w f) = c"
    using assms by (simp add: channels_grid)
  show "is_array (grid h w f)"
    using assms by (simp add: is_array_def shape2_grid c) (simp add: grid_def list_all_iff)
  show "size_of (grid h w f) = h * w * c"
    using assms(1) by (simp add: size_of_def shape2_grid c)
qed

lemma array_pixels:
  assumes "is_array img" and "shape2 img = (h, w)" and "i < h" and "j < w"
  shows "length (img ! i ! j) = channels img"
proof -
  have "length img = h" "\<And>r. r \<in> set img \<Longrightarrow> length r = w"
    using array_rows[OF assms(1,2)] by simp_all
  then have "img ! i \<in> set img" "img ! i ! j \<in> set (img ! i)"
    using assms(3,4) by simp_all
  then show ?thesis
    using assms(1,2) by (auto simp: is_array_def list_all_iff)
qed

lemma rotate_array:
  assumes "is_array img"
  shows "is_array (rotate_90_clockwise img)" and "size_of (rotate_90_clockwise img) = size_of img"
proof -
  obtain h w where s: "shape2 img = (h, w)" by (cases "shape2 img")
  have pos: "0 < h" "0 < w" using array_rows(2,3)[OF assms s] .
  have g: "rotate_90_clockwise img = grid w h (\<lambda>i j. img ! (h - 1 - j) ! i)"
    using rotate_grid[OF pos(1), of w "\<lambda>i j. img ! i ! j"]
    unfolding array_grid[OF assms s, symmetric] .
  have len: "length (img ! (h - 1 - j) ! i) = channels img" if "i < w" "j < h" for i j
    using that pos by (intro array_pixels[OF assms s]) simp_all
  show "is_array (rotate_90_clockwise img)"
    unfolding g by (rule is_array_grid(1)[OF pos(2,1) len])
  have "size_of (rotate_90_clockwise img) = w * h * channels img"
    unfolding g by (rule is_array_grid(2)[OF pos(2,1) len])
  then show "size_of (rotate_90_clockwise img) = size_of img"
    by (simp add: size_of_def s)
qed

lemma turned_array:
  assumes "is_array img"
  shows "is_array ((rotate_90_clockwise ^^ k) img) \<and>
         size_of ((rotate_90_clockwise ^^ k) img) = size_of img"
  by (induction k) (simp_all add: assms rotate_array)

lemma turns_mod4:
  assumes "is_array img"
  shows "(rotate_90_clockwise ^^ n) img = (rotate_90_clockwise ^^ (n mod 4)) img"
  using funpow_mod_eq[OF rotate4[OF assms], of n] by simp

lemma attempt_turned:
  assumes "is_array img"
  shows "attempt ((rotate_90_clockwise ^^ k) img) cc biggest j = attempt img cc biggest ((j + k) mod 4)"
proof -
  have "(rotate_90_clockwise ^^ j) ((rotate_90_clockwise ^^ k) img) = (rotate_90_clockwise ^^ (j + k)) img"
    by (simp add: funpow_add)
  also have "\<dots> = (rotate_90_clockwise ^^ ((j + k) mod 4)) img"
    by (rule turns_mod4[OF assms])
  finally show ?thesis
    using turned_array[OF assms, of k] by (simp add: attempt_def side_length_def)
qed


lemma detect_faces_offset:
  assumes "fst (detect_faces env img cc biggest) = PyInt (int j * 90)"
  shows "j < 4 \<and> detectMultiScale env (attempt img cc biggest j) \<noteq> [] \<and>
         (\<forall>i<j. detectMultiScale env (attempt img cc biggest i) = [])"
proof -
  let ?d = "\<lambda>k. detectMultiScale env (attempt img cc biggest k) \<noteq> []"
  have less2: "(\<forall>i<2. P i) = (P 0 \<and> P (1::nat))" for P
  proof -
    have "\<And>i::nat. i < 2 \<longleftrightarrow> i = 0 \<or> i = 1" by arith
    then show ?thesis by auto
  qed
  have less3: "(\<forall>i<3. P i) = (P 0 \<and> P 1 \<and> P (2::nat))" for P
  proof -
    have "\<And>i::nat. i < 3 \<longleftrightarrow> i = 0 \<or> i = 1 \<or> i = 2" by arith
    then show ?thesis by auto
  qed
  consider "?d 0" | "\<not> ?d 0" "?d 1" | "\<not> ?d 0" "\<not> ?d 1" "?d 2"
    | "\<not> ?d 0" "\<not> ?d 1" "\<not> ?d 2" "?d 3" | "\<not> ?d 0" "\<not> ?d 1" "\<not> ?d 2" "\<not> ?d 3"
    by blast
  then show ?thesis
  proof cases
    case 1
    then have "int j * 90 = 0" using assms by (simp add: detect_faces_unfold Let_def)
    then have "j = 0" by simp
    then show ?thesis using 1 by simp
  next
    case 2
    then have "int j * 90 = 90" using assms by (simp add: detect_faces_unfold Let_def)
    then have "j = 1" by simp
    then show ?thesis using 2 by simp
  next
    case 3
    then have "int j * 90 = 180" using assms by (simp add: detect_faces_unfold Let_def)
    then have "j = 2" by simp
    then show ?thesis using 3 by (simp add: less2)
  next
    case 4
    then have "int j * 90 = 270" using assms by (simp add: detect_faces_unfold Let_def)
    then have "j = 3" by simp
    then show ?thesis using 4 by (simp add: less3)
  next
    case 5
    then show ?thesis using assms by (simp add: detect_faces_unfold Let_def)
  qed
qed

text \<open>
  C6.  For every image (an array) and every number \<open>k\<close> of clockwise quarter turns applied
  to it beforehand, in particular for \<open>k\<close> in {0, 1, 2, 3}: when \<^verbatim>\<open>detect_faces\<close> on the turned
  image returns \<open>j * 90\<close>, the detector call that found something is the call on the
  original image turned \<open>(j + k) mod 4\<close> times, with the same flags and size bounds, and the
  calls at the offsets before \<open>j\<close> were the calls on the original turned
  \<open>(i + k) mod 4\<close> times and found nothing.  The rotation that makes the original
  detectable is \<open>((j + k) mod 4) * 90\<close>.
\<close>

theorem rotation_offsets_compose:
  assumes "is_array img"
    and "fst (detect_faces env ((rotate_90_clockwise ^^ k) img) cc biggest) = PyInt (int j * 90)"
  shows "j < 4 \<and>
         attempt ((rotate_90_clockwise ^^ k) img) cc biggest j = attempt img cc biggest ((j + k) mod 4) \<and>
         frame (attempt img cc biggest ((j + k) mod 4)) = (rotate_90_clockwise ^^ ((j + k) mod 4)) img \<and>
         detectMultiScale env (attempt img cc biggest ((j + k) mod 4)) \<noteq> [] \<and>
         (\<forall>i<j. detectMultiScale env (attempt img cc biggest ((i + k) mod 4)) = [])"
  using detect_faces_offset[OF assms(2)]
  by (simp add: attempt_turned[OF assms(1)] attempt_frame)

lemma tile_turns:
  "rotate_90_clockwise tile = [[[30], [10]], [[40], [20]]]"
  "rotate_90_clockwise [[[30], [10]], [[40], [20]]] = [[[40], [30]], [[20], [10]]]"
  "rotate_90_clockwise [[[40], [30]], [[20], [10]]] = [[[20], [40]], [[10], [30]]]"
  by (simp_all add: rotate_90_clockwise_def shape2_def tile_def upt_conv_Cons)

lemma tile_array: "is_array tile"
  by (simp add: is_array_def shape2_def tile_def channels_def)

lemma tile_search:
  "fst (detect_faces (lab (face_in [[[20], [40]], [[10], [30]]])) ((rotate_90_clockwise ^^ 1) tile)
          ''profile'' True) = PyInt (int 2 * 90)"
  by (simp add: detect_faces_unfold Let_def lab_sel face_in_iff quarter_turns tile_turns)

theorem rotation_offsets_compose_witness:
  "fst (detect_faces (lab (face_in [[[20], [40]], [[10], [30]]])) (rotate_90_clockwise tile)
          ''profile'' True) = PyInt 180 \<and>
   frame (attempt tile ''profile'' True 3) = [[[20], [40]], [[10], [30]]] \<and>
   detectMultiScale (lab (face_in [[[20], [40]], [[10], [30]]])) (attempt tile ''profile'' True 3) \<noteq> []"
  using rotation_offsets_compose[OF tile_array tile_search] tile_search
  by (simp add: quarter_turns tile_turns)

end
